theory Spec2Isabelle
  imports Main "HOL-Library.Multiset" "HOL-Library.AList"
begin

section \<open>Connect 4: the board\<close>

text \<open>
  The program keeps the grid in \<^verbatim>\<open>char board[ROWS][COLS]\<close>: six rows of seven
  cells, row 0 at the top, row 5 at the bottom. A cell holds \<^verbatim>\<open>' '\<close> (empty),
  \<^verbatim>\<open>'X'\<close> or \<^verbatim>\<open>'O'\<close>. The embedding keeps the characters and represents the array
  as a list of rows (\<open>wf_board\<close> says that the list has the shape of the array);
  every function that writes to the array takes the board and returns the board it leaves
  behind. Row and column indices are natural numbers. Scores and depths are C++
  \<^verbatim>\<open>int\<close>s and are modelled as integers: the program's arithmetic on them stays far
  inside 32 bits (\<open>evaluateBoard_range\<close> below bounds the evaluation).
\<close>

type_synonym board = "char list list"

definition ROWS :: nat where "ROWS = 6"
definition COLS :: nat where "COLS = 7"
definition MAX_MEMORY_SIZE :: nat where "MAX_MEMORY_SIZE = 2000000"
definition INT_MIN :: int where "INT_MIN = - 2147483648"
definition INT_MAX :: int where "INT_MAX = 2147483647"

definition wf_board :: "board \<Rightarrow> bool" where
  "wf_board b = (length b = ROWS \<and> list_all (\<lambda>row. length row = COLS) b)"

definition set_cell :: "board \<Rightarrow> nat \<Rightarrow> nat \<Rightarrow> char \<Rightarrow> board" where
  "set_cell b r c v = b[r := (b ! r)[c := v]]"

definition initBoard :: board where
  "initBoard = replicate ROWS (replicate COLS (CHR '' ''))"

definition getBoardHash :: "board \<Rightarrow> string" where
  "getBoardHash b =
     fold (\<lambda>i key. fold (\<lambda>j key. key @ [b ! i ! j]) [0..<COLS] key) [0..<ROWS] []"

text \<open>\<^verbatim>\<open>getNextOpenRow\<close> scans a column from the bottom row upwards; \<open>None\<close> is the
  source's \<^verbatim>\<open>-1\<close>. The second argument of the helper is the number of rows still to
  be looked at, so the row examined is \<open>n - 1\<close>.\<close>

primrec getNextOpenRow_from :: "board \<Rightarrow> nat \<Rightarrow> nat \<Rightarrow> nat option" where
  "getNextOpenRow_from b col 0 = None"
| "getNextOpenRow_from b col (Suc r) =
     (if b ! r ! col = CHR '' '' then Some r else getNextOpenRow_from b col r)"

definition getNextOpenRow :: "board \<Rightarrow> nat \<Rightarrow> nat option" where
  "getNextOpenRow b col = getNextOpenRow_from b col ROWS"

definition checkWin :: "board \<Rightarrow> char \<Rightarrow> bool" where
  "checkWin b p =
    (list_ex (\<lambda>r. list_ex (\<lambda>c.
        b ! r ! c = p \<and> b ! r ! (c + 1) = p \<and> b ! r ! (c + 2) = p \<and> b ! r ! (c + 3) = p)
        [0..<COLS - 3]) [0..<ROWS]
     \<or> list_ex (\<lambda>r. list_ex (\<lambda>c.
        b ! r ! c = p \<and> b ! (r + 1) ! c = p \<and> b ! (r + 2) ! c = p \<and> b ! (r + 3) ! c = p)
        [0..<COLS]) [0..<ROWS - 3]
     \<or> list_ex (\<lambda>r.
          list_ex (\<lambda>c. b ! r ! c = p \<and> b ! (r + 1) ! (c + 1) = p
                     \<and> b ! (r + 2) ! (c + 2) = p \<and> b ! (r + 3) ! (c + 3) = p) [0..<COLS - 3]
        \<or> list_ex (\<lambda>c. b ! r ! c = p \<and> b ! (r + 1) ! (c - 1) = p
                     \<and> b ! (r + 2) ! (c - 2) = p \<and> b ! (r + 3) ! (c - 3) = p) [3..<COLS])
        [0..<ROWS - 3])"

text \<open>\<^verbatim>\<open>dropPiece\<close> works on the global board; here the board is an argument and the
  second component of the result.\<close>

definition dropPiece :: "board \<Rightarrow> nat \<Rightarrow> char \<Rightarrow> bool \<times> board" where
  "dropPiece b col player =
     (case getNextOpenRow b col of
        Some row \<Rightarrow> (True, set_cell b row col player)
      | None \<Rightarrow> (False, b))"

section \<open>The evaluation engine\<close>

definition countPiece :: "char \<Rightarrow> char \<Rightarrow> char \<Rightarrow> char \<Rightarrow> char \<Rightarrow> int" where
  "countPiece c1 c2 c3 c4 piece =
     of_bool (c1 = piece) + of_bool (c2 = piece) + of_bool (c3 = piece) + of_bool (c4 = piece)"

definition countEmpty :: "char \<Rightarrow> char \<Rightarrow> char \<Rightarrow> char \<Rightarrow> int" where
  "countEmpty c1 c2 c3 c4 =
     of_bool (c1 = CHR '' '') + of_bool (c2 = CHR '' '') + of_bool (c3 = CHR '' '')
       + of_bool (c4 = CHR '' '')"

definition countOpp :: "char \<Rightarrow> char \<Rightarrow> char \<Rightarrow> char \<Rightarrow> char \<Rightarrow> int" where
  "countOpp c1 c2 c3 c4 piece = 4 - countPiece c1 c2 c3 c4 piece - countEmpty c1 c2 c3 c4"

text \<open>The two halves of \<^verbatim>\<open>evaluateWindow\<close>, each the amount its block adds to
  \<^verbatim>\<open>score\<close>.\<close>

definition offense :: "char \<Rightarrow> char \<Rightarrow> char \<Rightarrow> char \<Rightarrow> char \<Rightarrow> int" where
  "offense c1 c2 c3 c4 piece =
     (if countPiece c1 c2 c3 c4 piece = 3 \<and> countEmpty c1 c2 c3 c4 = 1 then
        (if c1 = CHR '' '' \<and> c4 = CHR '' '' then 5000 else 150)
      else if countPiece c1 c2 c3 c4 piece = 2 \<and> countEmpty c1 c2 c3 c4 = 2 then
        (if (c1 = piece \<and> c2 = piece) \<or> (c2 = piece \<and> c3 = piece) \<or> (c3 = piece \<and> c4 = piece)
         then 50 else 60)
      else 0)"

definition defense :: "char \<Rightarrow> char \<Rightarrow> char \<Rightarrow> char \<Rightarrow> char \<Rightarrow> int" where
  "defense c1 c2 c3 c4 piece =
     (if countOpp c1 c2 c3 c4 piece = 3 \<and> countEmpty c1 c2 c3 c4 = 1 then
        (if c1 = CHR '' '' \<and> c4 = CHR '' '' then - 10000 else - 500)
      else if countOpp c1 c2 c3 c4 piece = 2 \<and> countEmpty c1 c2 c3 c4 = 2 then - 50
      else 0)"

definition evaluateWindow :: "char \<Rightarrow> char \<Rightarrow> char \<Rightarrow> char \<Rightarrow> char \<Rightarrow> int" where
  "evaluateWindow c1 c2 c3 c4 piece =
     (if countPiece c1 c2 c3 c4 piece = 4 then 1000000
      else offense c1 c2 c3 c4 piece + defense c1 c2 c3 c4 piece)"

text \<open>\<^verbatim>\<open>evaluateBoard\<close>: five loops that add to one running \<^verbatim>\<open>score\<close>, in the
  order of the source.\<close>

definition center_step :: "board \<Rightarrow> char \<Rightarrow> nat \<Rightarrow> int \<Rightarrow> int" where
  "center_step b piece r score =
     (let score1 = (if b ! r ! (COLS div 2) = piece then score + 200 else score)
      in if b ! r ! (COLS div 2 - 1) = piece \<or> b ! r ! (COLS div 2 + 1) = piece
         then score1 + 100 else score1)"

definition evaluateBoard :: "board \<Rightarrow> char \<Rightarrow> int" where
  "evaluateBoard b piece =
    (let score = fold (center_step b piece) [0..<ROWS] 0;
         score = fold (\<lambda>r. fold (\<lambda>c score. score +
                   evaluateWindow (b ! r ! c) (b ! r ! (c + 1)) (b ! r ! (c + 2)) (b ! r ! (c + 3)) piece)
                   [0..<COLS - 3]) [0..<ROWS] score;
         score = fold (\<lambda>c. fold (\<lambda>r score. score +
                   evaluateWindow (b ! r ! c) (b ! (r + 1) ! c) (b ! (r + 2) ! c) (b ! (r + 3) ! c) piece)
                   [0..<ROWS - 3]) [0..<COLS] score;
         score = fold (\<lambda>r score.
                   fold (\<lambda>c score. score +
                     evaluateWindow (b ! r ! c) (b ! (r + 1) ! (c - 1)) (b ! (r + 2) ! (c - 2))
                       (b ! (r + 3) ! (c - 3)) piece) [3..<COLS]
                   (fold (\<lambda>c score. score +
                     evaluateWindow (b ! r ! c) (b ! (r + 1) ! (c + 1)) (b ! (r + 2) ! (c + 2))
                       (b ! (r + 3) ! (c + 3)) piece) [0..<COLS - 3] score))
                   [0..<ROWS - 3] score
     in score)"

section \<open>Threats, move ordering and adaptive depth\<close>

text \<open>\<^verbatim>\<open>countThreats\<close> writes the piece into the array, tests, and writes
  \<^verbatim>\<open>' '\<close> back; the loop state is the counter and the array.\<close>

definition countThreats_step :: "char \<Rightarrow> nat \<Rightarrow> int \<times> board \<Rightarrow> int \<times> board" where
  "countThreats_step piece col s =
     (case getNextOpenRow (snd s) col of
        None \<Rightarrow> s
      | Some row \<Rightarrow>
          (let b1 = set_cell (snd s) row col piece;
               threats = (if checkWin b1 piece then fst s + 1 else fst s)
           in (threats, set_cell b1 row col (CHR '' ''))))"

definition countThreats :: "board \<Rightarrow> char \<Rightarrow> int \<times> board" where
  "countThreats b piece = fold (countThreats_step piece) [0..<COLS] (0, b)"

definition evaluateMoveSimple :: "board \<Rightarrow> char \<Rightarrow> int" where
  "evaluateMoveSimple b piece = evaluateBoard b piece"

text \<open>The body of the loop of \<^verbatim>\<open>getOptimizedMoves\<close>; the state is the vector
  \<^verbatim>\<open>moves_with_score\<close> and the array.\<close>

definition move_step :: "char \<Rightarrow> nat \<Rightarrow> (nat \<times> int) list \<times> board \<Rightarrow> (nat \<times> int) list \<times> board" where
  "move_step piece col s =
     (case getNextOpenRow (snd s) col of
        None \<Rightarrow> s
      | Some row \<Rightarrow>
          (let b1 = set_cell (snd s) row col piece;
               score = (if checkWin b1 piece then 1000000 else evaluateMoveSimple b1 piece);
               b2 = set_cell b1 row col (CHR '' '');
               score = score + (30 - \<bar>int col - 3\<bar> * 10);
               score = (if row < ROWS - 1 \<and> b2 ! (row + 1) ! col = piece then score + 40 else score)
           in (fst s @ [(col, score)], b2)))"

definition moves_with_score :: "board \<Rightarrow> bool \<Rightarrow> (nat \<times> int) list \<times> board" where
  "moves_with_score b maximizingPlayer =
     fold (move_step (if maximizingPlayer then CHR ''O'' else CHR ''X'')) [0..<COLS] ([], b)"

text \<open>\<^verbatim>\<open>std::sort\<close> is a library routine. The language standard fixes its result
  only up to the order of elements that compare equal: the output is a rearrangement of
  the input in which no later element has a strictly greater score than an earlier one
  (the comparator of the source is \<^verbatim>\<open>a.second > b.second\<close>). The embedding takes the
  routine as a parameter \<open>srt\<close>; \<open>std_sort_spec\<close> is the contract.\<close>

type_synonym sorter = "(nat \<times> int) list \<Rightarrow> (nat \<times> int) list"

definition std_sort_spec :: "sorter \<Rightarrow> bool" where
  "std_sort_spec srt =
     (\<forall>xs. mset (srt xs) = mset xs \<and> sorted_wrt (\<lambda>a b. \<not> snd b > snd a) (srt xs))"

definition getOptimizedMoves :: "sorter \<Rightarrow> board \<Rightarrow> bool \<Rightarrow> nat list \<times> board" where
  "getOptimizedMoves srt b maximizingPlayer =
     (case moves_with_score b maximizingPlayer of
        (ms, b') \<Rightarrow> (map fst (srt ms), b'))"

text \<open>The vector that is sorted holds at most seven pairs. On a range this short the
  implementations of \<^verbatim>\<open>std::sort\<close> in common use run an insertion sort, which moves a
  pair only in front of pairs of strictly smaller score and so keeps pairs of equal score
  in the order in which they were pushed. \<open>stable_sort\<close> is that routine: an insertion
  sort by descending score.\<close>

definition stable_sort :: sorter where
  "stable_sort xs = sort_key (\<lambda>p. - snd p) xs"

definition count_cells :: "(char \<Rightarrow> bool) \<Rightarrow> board \<Rightarrow> int" where
  "count_cells P b =
     fold (\<lambda>i. fold (\<lambda>j n. if P (b ! i ! j) then n + 1 else n) [0..<COLS]) [0..<ROWS] 0"

definition getAdaptiveDepth :: "board \<Rightarrow> int \<Rightarrow> int \<times> board" where
  "getAdaptiveDepth b base_depth =
     (case countThreats b (CHR ''O'') of (tO, b1) \<Rightarrow>
      case countThreats b1 (CHR ''X'') of (tX, b2) \<Rightarrow>
        (let threats = tO + tX in
         if threats \<ge> 2 then (base_depth + 2, b2)
         else if threats = 1 then (base_depth + 1, b2)
         else (let moves_played = count_cells (\<lambda>c. c \<noteq> CHR '' '') b2 in
               if moves_played < 8 then (max 3 (base_depth - 1), b2)
               else if moves_played > 30 then (base_depth + 1, b2)
               else (base_depth, b2))))"

section \<open>The transposition cache and the search\<close>

text \<open>\<^verbatim>\<open>memo\<close> is an \<^verbatim>\<open>unordered_map<string, pair<int,int>>\<close>: an association
  list with one pair per key, \<open>map_of\<close> for \<^verbatim>\<open>find\<close>, \<open>AList.update\<close> for
  \<^verbatim>\<open>memo[key] = v\<close>, \<open>length\<close> for \<^verbatim>\<open>size()\<close> and \<open>[]\<close> after
  \<^verbatim>\<open>clear()\<close>.\<close>

type_synonym memo = "(string \<times> (int \<times> int)) list"

definition wf_memo :: "memo \<Rightarrow> bool" where
  "wf_memo m = distinct (map fst m)"

fun digits :: "nat \<Rightarrow> string" where
  "digits n = (if n < 10 then [''0123456789'' ! n]
               else digits (n div 10) @ [''0123456789'' ! (n mod 10)])"

declare digits.simps [simp del]

definition to_string :: "int \<Rightarrow> string" where
  "to_string d = (if d < 0 then CHR ''-'' # digits (nat (- d)) else digits (nat d))"

definition memo_key :: "board \<Rightarrow> int \<Rightarrow> bool \<Rightarrow> string" where
  "memo_key b depth maximizingPlayer =
     getBoardHash b @ to_string depth @ (if maximizingPlayer then ''T'' else ''F'')"

text \<open>The search recurses without a bound that the types show, so the embedding counts
  fuel: one unit per call of \<^verbatim>\<open>minimax\<close>. Writing at row \<^verbatim>\<open>-1\<close> (a full column)
  would be outside the array; the model reports it.\<close>

datatype error = OutOfFuel | BadIndex

type_synonym result = "(int \<times> int) \<times> board \<times> memo"

text \<open>The loop of a maximizing node. \<open>rec\<close> is the recursive call with everything but
  the array, the cache and the window fixed; \<open>root\<close> is
  \<^verbatim>\<open>depth == original_depth\<close>. The flag of the result tells whether the loop left
  through the \<^verbatim>\<open>return\<close> of the forced-win cutoff.\<close>

primrec max_loop ::
  "(board \<Rightarrow> memo \<Rightarrow> int \<Rightarrow> int \<Rightarrow> error + result) \<Rightarrow> bool \<Rightarrow> string \<Rightarrow> nat list \<Rightarrow>
   board \<Rightarrow> memo \<Rightarrow> int \<Rightarrow> int \<Rightarrow> int \<Rightarrow> int \<Rightarrow> error + (bool \<times> result)" where
  "max_loop rec root key [] b memo alpha beta bestCol bestScore =
     Inr (False, (bestCol, bestScore), b, memo)"
| "max_loop rec root key (col # cols) b memo alpha beta bestCol bestScore =
     (case getNextOpenRow b col of
        None \<Rightarrow> Inl BadIndex
      | Some row \<Rightarrow>
         (case rec (set_cell b row col (CHR ''O'')) memo alpha beta of
            Inl e \<Rightarrow> Inl e
          | Inr r \<Rightarrow>
             (let score = snd (fst r);
                  b2 = set_cell (fst (snd r)) row col (CHR '' '');
                  memo1 = snd (snd r);
                  better = (score > bestScore);
                  bestScore1 = (if better then score else bestScore);
                  bestCol1 = (if better then int col else bestCol)
              in if better \<and> root \<and> score > 900000
                 then Inr (True, (bestCol1, bestScore1), b2,
                           AList.update key (bestCol1, bestScore1) memo1)
                 else (let alpha1 = max alpha bestScore1
                       in if alpha1 \<ge> beta
                          then Inr (False, (bestCol1, bestScore1), b2, memo1)
                          else max_loop rec root key cols b2 memo1 alpha1 beta bestCol1 bestScore1))))"

primrec min_loop ::
  "(board \<Rightarrow> memo \<Rightarrow> int \<Rightarrow> int \<Rightarrow> error + result) \<Rightarrow> nat list \<Rightarrow>
   board \<Rightarrow> memo \<Rightarrow> int \<Rightarrow> int \<Rightarrow> int \<Rightarrow> int \<Rightarrow> error + result" where
  "min_loop rec [] b memo alpha beta bestCol bestScore = Inr ((bestCol, bestScore), b, memo)"
| "min_loop rec (col # cols) b memo alpha beta bestCol bestScore =
     (case getNextOpenRow b col of
        None \<Rightarrow> Inl BadIndex
      | Some row \<Rightarrow>
         (case rec (set_cell b row col (CHR ''X'')) memo alpha beta of
            Inl e \<Rightarrow> Inl e
          | Inr r \<Rightarrow>
             (let score = snd (fst r);
                  b2 = set_cell (fst (snd r)) row col (CHR '' '');
                  memo1 = snd (snd r);
                  better = (score < bestScore);
                  bestScore1 = (if better then score else bestScore);
                  bestCol1 = (if better then int col else bestCol);
                  beta1 = min beta bestScore1
              in if beta1 \<le> alpha
                 then Inr ((bestCol1, bestScore1), b2, memo1)
                 else min_loop rec cols b2 memo1 alpha beta1 bestCol1 bestScore1)))"

text \<open>What follows the loops in \<^verbatim>\<open>minimax\<close>: the guarded insertion, or the
  \<^verbatim>\<open>clear()\<close>.\<close>

definition store :: "string \<Rightarrow> result \<Rightarrow> result" where
  "store key r =
     (if length (snd (snd r)) < MAX_MEMORY_SIZE
      then (fst r, fst (snd r), AList.update key (fst r) (snd (snd r)))
      else (fst r, fst (snd r), []))"

definition clamp_depth :: "board \<Rightarrow> int \<Rightarrow> bool \<Rightarrow> int \<Rightarrow> int" where
  "clamp_depth b depth isScoreAttack original_depth =
     (let empty_cells = count_cells (\<lambda>c. c = CHR '' '') b
      in if empty_cells \<le> original_depth * 2 \<and> \<not> isScoreAttack then empty_cells else depth)"

primrec minimax ::
  "nat \<Rightarrow> sorter \<Rightarrow> board \<Rightarrow> memo \<Rightarrow> int \<Rightarrow> int \<Rightarrow> int \<Rightarrow> bool \<Rightarrow> bool \<Rightarrow> int \<Rightarrow> error + result" where
  "minimax 0 srt b memo depth alpha beta maximizingPlayer isScoreAttack original_depth =
     Inl OutOfFuel"
| "minimax (Suc n) srt b memo depth alpha beta maximizingPlayer isScoreAttack original_depth =
     (case map_of memo (memo_key b depth maximizingPlayer) of
        Some v \<Rightarrow> Inr (v, b, memo)
      | None \<Rightarrow>
        if \<not> isScoreAttack \<and> checkWin b (CHR ''O'') then Inr ((- 1, 1000000 + depth), b, memo)
        else if \<not> isScoreAttack \<and> checkWin b (CHR ''X'') then Inr ((- 1, - 1000000 - depth), b, memo)
        else if clamp_depth b depth isScoreAttack original_depth = 0
        then Inr ((- 1, evaluateBoard b (CHR ''O'')), b, memo)
        else
          (case getOptimizedMoves srt b maximizingPlayer of
             ([], b1) \<Rightarrow> Inr ((- 1, 0), b1, memo)
           | (c0 # cs, b1) \<Rightarrow>
              if maximizingPlayer then
                (case max_loop
                        (\<lambda>b' memo' alpha' beta'.
                           minimax n srt b' memo'
                             (clamp_depth b depth isScoreAttack original_depth - 1)
                             alpha' beta' False isScoreAttack original_depth)
                        (clamp_depth b depth isScoreAttack original_depth = original_depth)
                        (memo_key b depth maximizingPlayer)
                        (c0 # cs) b1 memo alpha beta (int c0) INT_MIN of
                   Inl e \<Rightarrow> Inl e
                 | Inr (returned, r) \<Rightarrow>
                     if returned then Inr r
                     else Inr (store (memo_key b depth maximizingPlayer) r))
              else
                (case min_loop
                        (\<lambda>b' memo' alpha' beta'.
                           minimax n srt b' memo'
                             (clamp_depth b depth isScoreAttack original_depth - 1)
                             alpha' beta' True isScoreAttack original_depth)
                        (c0 # cs) b1 memo alpha beta (int c0) INT_MAX of
                   Inl e \<Rightarrow> Inl e
                 | Inr r \<Rightarrow> Inr (store (memo_key b depth maximizingPlayer) r))))"

section \<open>Vocabulary of the specification\<close>

text \<open>The scoring table of the specification speaks of the number of own pieces, of
  empty cells and of opponent pieces in a window, of an adjacent pair of own pieces and of
  the two end cells. These are its notions, written independently of the counters of
  \<^verbatim>\<open>evaluateWindow\<close>.\<close>

definition own_cells :: "char list \<Rightarrow> char \<Rightarrow> nat" where
  "own_cells cs piece = count_list cs piece"

definition empty_cells_in :: "char list \<Rightarrow> nat" where
  "empty_cells_in cs = count_list cs (CHR '' '')"

definition opp_cells :: "char list \<Rightarrow> char \<Rightarrow> nat" where
  "opp_cells cs piece = length (filter (\<lambda>c. c \<noteq> piece \<and> c \<noteq> CHR '' '') cs)"

definition adjacent_pair :: "char list \<Rightarrow> char \<Rightarrow> bool" where
  "adjacent_pair cs piece = list_ex (\<lambda>(a, b). a = piece \<and> b = piece) (zip cs (tl cs))"

definition both_ends_empty :: "char list \<Rightarrow> bool" where
  "both_ends_empty cs = (hd cs = CHR '' '' \<and> last cs = CHR '' '')"

section \<open>The search with the cache disabled\<close>

text \<open>The same search with the three cache statements of \<^verbatim>\<open>minimax\<close> removed (the
  lookup at entry, the insertion at the forced-win cutoff, and the guarded insertion or
  \<^verbatim>\<open>clear()\<close> before the final return). It is the reference that the cached search
  is compared with.\<close>

type_synonym plain_result = "(int \<times> int) \<times> board"

primrec max_loop_nocache ::
  "(board \<Rightarrow> int \<Rightarrow> int \<Rightarrow> error + plain_result) \<Rightarrow> bool \<Rightarrow> nat list \<Rightarrow>
   board \<Rightarrow> int \<Rightarrow> int \<Rightarrow> int \<Rightarrow> int \<Rightarrow> error + plain_result" where
  "max_loop_nocache rec root [] b alpha beta bestCol bestScore = Inr ((bestCol, bestScore), b)"
| "max_loop_nocache rec root (col # cols) b alpha beta bestCol bestScore =
     (case getNextOpenRow b col of
        None \<Rightarrow> Inl BadIndex
      | Some row \<Rightarrow>
         (case rec (set_cell b row col (CHR ''O'')) alpha beta of
            Inl e \<Rightarrow> Inl e
          | Inr r \<Rightarrow>
             (let score = snd (fst r);
                  b2 = set_cell (snd r) row col (CHR '' '');
                  better = (score > bestScore);
                  bestScore1 = (if better then score else bestScore);
                  bestCol1 = (if better then int col else bestCol)
              in if better \<and> root \<and> score > 900000
                 then Inr ((bestCol1, bestScore1), b2)
                 else (let alpha1 = max alpha bestScore1
                       in if alpha1 \<ge> beta
                          then Inr ((bestCol1, bestScore1), b2)
                          else max_loop_nocache rec root cols b2 alpha1 beta bestCol1 bestScore1))))"

primrec min_loop_nocache ::
  "(board \<Rightarrow> int \<Rightarrow> int \<Rightarrow> error + plain_result) \<Rightarrow> nat list \<Rightarrow>
   board \<Rightarrow> int \<Rightarrow> int \<Rightarrow> int \<Rightarrow> int \<Rightarrow> error + plain_result" where
  "min_loop_nocache rec [] b alpha beta bestCol bestScore = Inr ((bestCol, bestScore), b)"
| "min_loop_nocache rec (col # cols) b alpha beta bestCol bestScore =
     (case getNextOpenRow b col of
        None \<Rightarrow> Inl BadIndex
      | Some row \<Rightarrow>
         (case rec (set_cell b row col (CHR ''X'')) alpha beta of
            Inl e \<Rightarrow> Inl e
          | Inr r \<Rightarrow>
             (let score = snd (fst r);
                  b2 = set_cell (snd r) row col (CHR '' '');
                  better = (score < bestScore);
                  bestScore1 = (if better then score else bestScore);
                  bestCol1 = (if better then int col else bestCol);
                  beta1 = min beta bestScore1
              in if beta1 \<le> alpha
                 then Inr ((bestCol1, bestScore1), b2)
                 else min_loop_nocache rec cols b2 alpha beta1 bestCol1 bestScore1)))"

primrec minimax_nocache ::
  "nat \<Rightarrow> sorter \<Rightarrow> board \<Rightarrow> int \<Rightarrow> int \<Rightarrow> int \<Rightarrow> bool \<Rightarrow> bool \<Rightarrow> int \<Rightarrow> error + plain_result" where
  "minimax_nocache 0 srt b depth alpha beta maximizingPlayer isScoreAttack original_depth =
     Inl OutOfFuel"
| "minimax_nocache (Suc n) srt b depth alpha beta maximizingPlayer isScoreAttack original_depth =
     (if \<not> isScoreAttack \<and> checkWin b (CHR ''O'') then Inr ((- 1, 1000000 + depth), b)
      else if \<not> isScoreAttack \<and> checkWin b (CHR ''X'') then Inr ((- 1, - 1000000 - depth), b)
      else if clamp_depth b depth isScoreAttack original_depth = 0
      then Inr ((- 1, evaluateBoard b (CHR ''O'')), b)
      else
        (case getOptimizedMoves srt b maximizingPlayer of
           ([], b1) \<Rightarrow> Inr ((- 1, 0), b1)
         | (c0 # cs, b1) \<Rightarrow>
            if maximizingPlayer then
              max_loop_nocache
                (\<lambda>b' alpha' beta'.
                   minimax_nocache n srt b'
                     (clamp_depth b depth isScoreAttack original_depth - 1)
                     alpha' beta' False isScoreAttack original_depth)
                (clamp_depth b depth isScoreAttack original_depth = original_depth)
                (c0 # cs) b1 alpha beta (int c0) INT_MIN
            else
              min_loop_nocache
                (\<lambda>b' alpha' beta'.
                   minimax_nocache n srt b'
                     (clamp_depth b depth isScoreAttack original_depth - 1)
                     alpha' beta' True isScoreAttack original_depth)
                (c0 # cs) b1 alpha beta (int c0) INT_MAX))"

section \<open>Vocabulary for the claims about the search helpers\<close>

text \<open>A column offers an immediate win to a piece when the piece, dropped into the column,
  completes a line.\<close>

definition immediate_win :: "board \<Rightarrow> char \<Rightarrow> nat \<Rightarrow> bool" where
  "immediate_win b piece col =
     (case getNextOpenRow b col of
        None \<Rightarrow> False
      | Some row \<Rightarrow> checkWin (set_cell b row col piece) piece)"

definition immediate_wins :: "board \<Rightarrow> char \<Rightarrow> nat" where
  "immediate_wins b piece = length (filter (immediate_win b piece) [0..<COLS])"

text \<open>The provisional score that the specification gives a legal column, and the columns
  that are not full.\<close>

definition nonfull :: "board \<Rightarrow> nat \<Rightarrow> bool" where
  "nonfull b col = (getNextOpenRow b col \<noteq> None)"

definition move_score :: "board \<Rightarrow> char \<Rightarrow> nat \<Rightarrow> int" where
  "move_score b piece col =
     (case getNextOpenRow b col of
        None \<Rightarrow> 0
      | Some row \<Rightarrow>
          (if checkWin (set_cell b row col piece) piece then 1000000
           else evaluateBoard (set_cell b row col piece) piece)
          + (30 - \<bar>int col - 3\<bar> * 10)
          + (if row < ROWS - 1 \<and> b ! (row + 1) ! col = piece then 40 else 0))"

definition side_piece :: "bool \<Rightarrow> char" where
  "side_piece maximizingPlayer = (if maximizingPlayer then CHR ''O'' else CHR ''X'')"

text \<open>The order of the specification on columns: the higher score first, and of two
  columns with the same score the one with the smaller index first.\<close>

definition listed_before :: "(nat \<Rightarrow> int) \<Rightarrow> nat \<Rightarrow> nat \<Rightarrow> bool" where
  "listed_before score c c' = (score c > score c' \<or> (score c = score c' \<and> c < c'))"

definition empties :: "board \<Rightarrow> nat" where
  "empties b = (\<Sum>row\<leftarrow>b. count_list row (CHR '' ''))"

text \<open>The outcome of a call leaves the array as it was at entry.\<close>

definition returns_board :: "board \<Rightarrow> error + result \<Rightarrow> bool" where
  "returns_board b x = (case x of Inl e \<Rightarrow> False | Inr r \<Rightarrow> fst (snd r) = b)"

text \<open>The occupied cells of a board, and the depth that the specification's two steps
  give for a number of immediate wins, a number of occupied cells and a base depth.\<close>

definition occupied :: "board \<Rightarrow> nat" where
  "occupied b = length (filter (\<lambda>(r, c). b ! r ! c \<noteq> CHR '' '') (List.product [0..<ROWS] [0..<COLS]))"

definition adaptive_depth_spec :: "nat \<Rightarrow> nat \<Rightarrow> int \<Rightarrow> int" where
  "adaptive_depth_spec threats occ base =
     (if threats \<ge> 2 then base + 2
      else if threats = 1 then base + 1
      else if occ < 8 then max 3 (base - 1)
      else if occ > 30 then base + 1
      else base)"

text \<open>The 4-cell windows of the grid as lists of positions, and the evaluation that the
  specification describes: every window, 200 for each own piece in the centre column and
  100 for each own piece in a column next to it.\<close>

type_synonym window = "(nat \<times> nat) \<times> (nat \<times> nat) \<times> (nat \<times> nat) \<times> (nat \<times> nat)"

definition horizontal_windows :: "window list" where
  "horizontal_windows = [((r, c), (r, c + 1), (r, c + 2), (r, c + 3)). r \<leftarrow> [0..<ROWS], c \<leftarrow> [0..<COLS - 3]]"

definition vertical_windows :: "window list" where
  "vertical_windows = [((r, c), (r + 1, c), (r + 2, c), (r + 3, c)). c \<leftarrow> [0..<COLS], r \<leftarrow> [0..<ROWS - 3]]"

definition falling_windows :: "window list" where
  "falling_windows = [((r, c), (r + 1, c + 1), (r + 2, c + 2), (r + 3, c + 3)). r \<leftarrow> [0..<ROWS - 3], c \<leftarrow> [0..<COLS - 3]]"

definition rising_windows :: "window list" where
  "rising_windows = [((r, c), (r + 1, c - 1), (r + 2, c - 2), (r + 3, c - 3)). r \<leftarrow> [0..<ROWS - 3], c \<leftarrow> [3..<COLS]]"

definition all_windows :: "window list" where
  "all_windows = horizontal_windows @ vertical_windows @ falling_windows @ rising_windows"

definition cell :: "board \<Rightarrow> nat \<times> nat \<Rightarrow> char" where
  "cell b p = b ! fst p ! snd p"

definition window_score :: "board \<Rightarrow> char \<Rightarrow> window \<Rightarrow> int" where
  "window_score b piece w =
     (case w of (p1, p2, p3, p4) \<Rightarrow> evaluateWindow (cell b p1) (cell b p2) (cell b p3) (cell b p4) piece)"

definition pieces_in_column :: "board \<Rightarrow> char \<Rightarrow> nat \<Rightarrow> nat" where
  "pieces_in_column b piece c = length (filter (\<lambda>r. b ! r ! c = piece) [0..<ROWS])"

definition rows_with_flank :: "board \<Rightarrow> char \<Rightarrow> nat" where
  "rows_with_flank b piece = length (filter (\<lambda>r. b ! r ! 2 = piece \<or> b ! r ! 4 = piece) [0..<ROWS])"

definition claimed_evaluateBoard :: "board \<Rightarrow> char \<Rightarrow> int" where
  "claimed_evaluateBoard b piece =
     sum_list (map (window_score b piece) all_windows)
     + 200 * int (pieces_in_column b piece 3)
     + 100 * (int (pieces_in_column b piece 2) + int (pieces_in_column b piece 4))"

section \<open>Placements and their undos\<close>

text \<open>A play is a sequence of placements with \<^verbatim>\<open>dropPiece\<close> in a column of the grid and
  of undos. An undo clears the cell of the latest placement that has not been undone yet
  (the search does so with \<^verbatim>\<open>b[row][col] = ' '\<close> after each recursive call), so the
  state carries the stack of those cells. A placement in a full column changes nothing, as
  \<^verbatim>\<open>dropPiece\<close> returns \<^verbatim>\<open>false\<close>. A column index outside the grid makes
  \<^verbatim>\<open>getNextOpenRow\<close> read outside the row, which C++ leaves undefined: it is not a move
  of the game, and the play has no outcome (\<open>None\<close>); so has an undo with nothing to undo.\<close>

datatype move = Place nat char | Undo

type_synonym play = "board \<times> (nat \<times> nat) list"

fun step :: "move \<Rightarrow> play \<Rightarrow> play option" where
  "step (Place col player) (b, placed) =
     (if col < COLS then
        (case getNextOpenRow b col of
           None \<Rightarrow> Some (snd (dropPiece b col player), placed)
         | Some row \<Rightarrow> Some (snd (dropPiece b col player), (row, col) # placed))
      else None)"
| "step Undo (b, []) = None"
| "step Undo (b, (row, col) # placed) = Some (set_cell b row col (CHR '' ''), placed)"

fun run :: "move list \<Rightarrow> play \<Rightarrow> play option" where
  "run [] s = Some s"
| "run (m # ms) s = (case step m s of None \<Rightarrow> None | Some s' \<Rightarrow> run ms s')"

definition gravity :: "board \<Rightarrow> bool" where
  "gravity b = (\<forall>col < COLS. \<forall>r < ROWS. b ! r ! col = CHR '' '' \<longrightarrow> (\<forall>r' < r. b ! r' ! col = CHR '' ''))"

fun placed_ok :: "board \<Rightarrow> (nat \<times> nat) list \<Rightarrow> bool" where
  "placed_ok b [] = True"
| "placed_ok b ((r, c) # placed) =
     (r < ROWS \<and> c < COLS \<and> (\<forall>r' < r. b ! r' ! c = CHR '' '') \<and> placed_ok (set_cell b r c (CHR '' '')) placed)"

definition play_inv :: "play \<Rightarrow> bool" where
  "play_inv s = (wf_board (fst s) \<and> gravity (fst s) \<and> placed_ok (fst s) (snd s))"

section \<open>Computing with a concrete board\<close>

text \<open>The functions above index the array cell by cell. To compute their value on a board
  written out as six rows of seven cells, each cell is first classified against the
  perspective piece (own, empty) and the windows are read off the rows. The lemmas of the
  section on computation below show that this computes the same values as the program's loops.\<close>

definition wtab :: "int \<Rightarrow> int \<Rightarrow> bool \<Rightarrow> bool \<Rightarrow> int" where
  "wtab np ne ends conn =
     (if np = 4 then 1000000
      else (if np = 3 \<and> ne = 1 then (if ends then 5000 else 150)
            else if np = 2 \<and> ne = 2 then (if conn then 50 else 60) else 0)
         + (if 4 - np - ne = 3 \<and> ne = 1 then (if ends then - 10000 else - 500)
            else if 4 - np - ne = 2 \<and> ne = 2 then - 50 else 0))"

definition cls :: "char \<Rightarrow> char \<Rightarrow> bool \<times> bool" where
  "cls p c = (c = p, c = CHR '' '')"

primrec bump :: "bool \<Rightarrow> nat \<Rightarrow> nat" where
  "bump True n = Suc n"
| "bump False n = n"

fun wtabn :: "nat \<Rightarrow> nat \<Rightarrow> bool \<Rightarrow> bool \<Rightarrow> int" where
  "wtabn (Suc (Suc (Suc (Suc 0)))) ne ends conn = 1000000"
| "wtabn (Suc (Suc (Suc 0))) (Suc 0) ends conn = (if ends then 5000 else 150)"
| "wtabn (Suc (Suc 0)) (Suc (Suc 0)) ends conn = (if conn then 50 else 60)"
| "wtabn 0 (Suc 0) ends conn = (if ends then - 10000 else - 500)"
| "wtabn 0 (Suc (Suc 0)) ends conn = - 50"
| "wtabn np ne ends conn = 0"

definition wscore :: "bool \<times> bool \<Rightarrow> bool \<times> bool \<Rightarrow> bool \<times> bool \<Rightarrow> bool \<times> bool \<Rightarrow> int" where
  "wscore x1 x2 x3 x4 =
     wtabn (bump (fst x1) (bump (fst x2) (bump (fst x3) (bump (fst x4) 0))))
          (bump (snd x1) (bump (snd x2) (bump (snd x3) (bump (snd x4) 0))))
          (snd x1 \<and> snd x4)
          ((fst x1 \<and> fst x2) \<or> (fst x2 \<and> fst x3) \<or> (fst x3 \<and> fst x4))"

fun row_windows :: "(bool \<times> bool) list \<Rightarrow> int" where
  "row_windows (a # b # c # d # rest) = wscore a b c d + row_windows (b # c # d # rest)"
| "row_windows _ = 0"

fun col_windows :: "(bool \<times> bool) list \<Rightarrow> (bool \<times> bool) list \<Rightarrow> (bool \<times> bool) list \<Rightarrow> (bool \<times> bool) list \<Rightarrow> int" where
  "col_windows (a # as) (b # bs) (c # cs) (d # ds) = wscore a b c d + col_windows as bs cs ds"
| "col_windows _ _ _ _ = 0"

definition center_bonus :: "(bool \<times> bool) list \<Rightarrow> int" where
  "center_bonus row = (if fst (row ! 3) then 200 else 0) + (if fst (row ! 2) \<or> fst (row ! 4) then 100 else 0)"

definition eval_rows :: "(bool \<times> bool) list list \<Rightarrow> int" where
  "eval_rows rs =
    sum_list (map center_bonus rs)
    + sum_list (map row_windows rs)
    + (col_windows (rs ! 0) (rs ! 1) (rs ! 2) (rs ! 3) + col_windows (rs ! 1) (rs ! 2) (rs ! 3) (rs ! 4)
        + col_windows (rs ! 2) (rs ! 3) (rs ! 4) (rs ! 5))
    + (col_windows (rs ! 0) (drop 1 (rs ! 1)) (drop 2 (rs ! 2)) (drop 3 (rs ! 3))
        + col_windows (rs ! 1) (drop 1 (rs ! 2)) (drop 2 (rs ! 3)) (drop 3 (rs ! 4))
        + col_windows (rs ! 2) (drop 1 (rs ! 3)) (drop 2 (rs ! 4)) (drop 3 (rs ! 5)))
    + (col_windows (drop 3 (rs ! 0)) (drop 2 (rs ! 1)) (drop 1 (rs ! 2)) (rs ! 3)
        + col_windows (drop 3 (rs ! 1)) (drop 2 (rs ! 2)) (drop 1 (rs ! 3)) (rs ! 4)
        + col_windows (drop 3 (rs ! 2)) (drop 2 (rs ! 3)) (drop 1 (rs ! 4)) (rs ! 5))"

fun row_win :: "(bool \<times> bool) list \<Rightarrow> bool" where
  "row_win (a # b # c # d # rest) = ((fst a \<and> fst b \<and> fst c \<and> fst d) \<or> row_win (b # c # d # rest))"
| "row_win _ = False"

fun col_win :: "(bool \<times> bool) list \<Rightarrow> (bool \<times> bool) list \<Rightarrow> (bool \<times> bool) list \<Rightarrow> (bool \<times> bool) list \<Rightarrow> bool" where
  "col_win (a # as) (b # bs) (c # cs) (d # ds) = ((fst a \<and> fst b \<and> fst c \<and> fst d) \<or> col_win as bs cs ds)"
| "col_win _ _ _ _ = False"

definition win_rows :: "(bool \<times> bool) list list \<Rightarrow> bool" where
  "win_rows rs =
    (list_ex row_win rs
    \<or> (col_win (rs ! 0) (rs ! 1) (rs ! 2) (rs ! 3) \<or> col_win (rs ! 1) (rs ! 2) (rs ! 3) (rs ! 4)
        \<or> col_win (rs ! 2) (rs ! 3) (rs ! 4) (rs ! 5))
    \<or> (col_win (rs ! 0) (drop 1 (rs ! 1)) (drop 2 (rs ! 2)) (drop 3 (rs ! 3))
        \<or> col_win (drop 3 (rs ! 0)) (drop 2 (rs ! 1)) (drop 1 (rs ! 2)) (rs ! 3))
    \<or> (col_win (rs ! 1) (drop 1 (rs ! 2)) (drop 2 (rs ! 3)) (drop 3 (rs ! 4))
        \<or> col_win (drop 3 (rs ! 1)) (drop 2 (rs ! 2)) (drop 1 (rs ! 3)) (rs ! 4))
    \<or> (col_win (rs ! 2) (drop 1 (rs ! 3)) (drop 2 (rs ! 4)) (drop 3 (rs ! 5))
        \<or> col_win (drop 3 (rs ! 2)) (drop 2 (rs ! 3)) (drop 1 (rs ! 4)) (rs ! 5)))"

section \<open>Concrete boards\<close>

text \<open>Boards used to run the program: each is written as the six rows of the array, top
  row first.\<close>

definition search_board :: board where
  "search_board =
     ['' X  XOO'',
      '' OX OOX'',
      ''XXXOXOX'',
      ''OXXXOXO'',
      ''OOOXOXO'',
      ''XXOXOXO'']"

definition drawn_board :: board where
  "drawn_board =
     [''XXOXXXO'',
      ''OOOXOXX'',
      ''OXXOOOX'',
      ''XOXOXOO'',
      ''XXOXOXO'',
      ''XXOXOOO'']"

definition win_board :: board where
  "win_board =
     ['' OO X O'',
      ''XXXOOXX'',
      ''OOXXXOX'',
      ''OXOOXOO'',
      ''OXOXOOX'',
      ''XXOOXXX'']"

definition flank_board :: board where
  "flank_board =
     [''       '',
      ''       '',
      ''       '',
      ''       '',
      ''   X   '',
      ''  OXO  '']"

definition opening_board :: board where
  "opening_board =
     [''       '',
      ''       '',
      ''       '',
      ''       '',
      ''   X   '',
      ''X OXO  '']"

definition threat_board :: board where
  "threat_board =
     [''       '',
      ''       '',
      ''       '',
      ''       '',
      '' XX    '',
      ''XOOO  X'']"

definition double_threat_board :: board where
  "double_threat_board =
     [''       '',
      ''       '',
      ''       '',
      ''       '',
      '' XXX   '',
      '' OOO  X'']"

definition endgame_board :: board where
  "endgame_board =
     [''X  O  O'',
      ''X  O XX'',
      ''OX O OX'',
      ''OOOX OX'',
      ''XOXOOXO'',
      ''XOXXXOX'']"

text \<open>A play of four placements and one undo, the board it leads to and the cells still
  to be undone.\<close>

definition example_play :: "move list" where
  "example_play = [Place 3 (CHR ''X''), Place 3 (CHR ''O''), Place 4 (CHR ''X''), Undo, Place 0 (CHR ''O'')]"

definition example_board :: board where
  "example_board =
     [''       '',
      ''       '',
      ''       '',
      ''       '',
      ''   O   '',
      ''O  X   '']"

text \<open>A cache that holds exactly \<^verbatim>\<open>MAX_MEMORY_SIZE\<close> entries, under the keys
  \<^verbatim>\<open>a\<close>, \<^verbatim>\<open>aa\<close>, \<^verbatim>\<open>aaa\<close> and so on.\<close>

definition full_memo :: memo where
  "full_memo = map (\<lambda>n. (replicate (Suc n) (CHR ''a''), (0, 0))) [0..<MAX_MEMORY_SIZE]"

section \<open>Basic facts about the board\<close>

lemma wf_board_length: "wf_board b \<Longrightarrow> length b = 6"
  by (simp add: wf_board_def ROWS_def)

lemma wf_board_row: "wf_board b \<Longrightarrow> r < 6 \<Longrightarrow> length (b ! r) = 7"
  by (simp add: wf_board_def ROWS_def COLS_def list_all_length)

lemma wf_board_set_cell: "wf_board b \<Longrightarrow> wf_board (set_cell b r c v)"
  by (cases "r < length b") (auto simp: wf_board_def set_cell_def list_all_length nth_list_update)

lemma set_cell_nth:
  "wf_board b \<Longrightarrow> r < 6 \<Longrightarrow> c < 7 \<Longrightarrow>
     set_cell b r c v ! r' ! c' = (if r' = r \<and> c' = c then v else b ! r' ! c')"
  by (auto simp: set_cell_def wf_board_length wf_board_row nth_list_update)

lemma set_cell_same: "set_cell b r c (b ! r ! c) = b"
  by (simp add: set_cell_def)

lemma set_cell_twice: "set_cell (set_cell b r c v) r c w = set_cell b r c w"
  by (cases "r < length b") (simp_all add: set_cell_def list_update_beyond)

lemma set_cell_restore:
  "b ! r ! c = CHR '' '' \<Longrightarrow> set_cell (set_cell b r c v) r c (CHR '' '') = b"
  using set_cell_same[of b r c] by (simp add: set_cell_twice)

lemma getNextOpenRow_from_Some:
  "getNextOpenRow_from b col n = Some row \<Longrightarrow>
     row < n \<and> b ! row ! col = CHR '' '' \<and> (\<forall>r'. row < r' \<and> r' < n \<longrightarrow> b ! r' ! col \<noteq> CHR '' '')"
proof (induction n)
  case 0
  then show ?case by simp
next
  case (Suc n)
  show ?case
  proof (cases "b ! n ! col = CHR '' ''")
    case True
    with Suc.prems show ?thesis by auto
  next
    case False
    with Suc.prems have "getNextOpenRow_from b col n = Some row" by simp
    from Suc.IH[OF this] False show ?thesis
      by (auto simp: less_Suc_eq)
  qed
qed

lemma getNextOpenRow_from_None:
  "getNextOpenRow_from b col n = None \<longleftrightarrow> (\<forall>r < n. b ! r ! col \<noteq> CHR '' '')"
  by (induction n) (auto simp: less_Suc_eq)

lemma getNextOpenRow_Some:
  "getNextOpenRow b col = Some row \<Longrightarrow>
     row < 6 \<and> b ! row ! col = CHR '' '' \<and> (\<forall>r'. row < r' \<and> r' < 6 \<longrightarrow> b ! r' ! col \<noteq> CHR '' '')"
  using getNextOpenRow_from_Some[of b col ROWS row] by (simp add: getNextOpenRow_def ROWS_def)

lemma getNextOpenRow_None:
  "getNextOpenRow b col = None \<longleftrightarrow> (\<forall>r < 6. b ! r ! col \<noteq> CHR '' '')"
  by (simp add: getNextOpenRow_def ROWS_def getNextOpenRow_from_None)

text \<open>Placing a piece in an open column and clearing the cell again gives the board back.\<close>

lemma place_undo:
  "getNextOpenRow b col = Some row \<Longrightarrow>
     set_cell (set_cell b row col v) row col (CHR '' '') = b"
  using getNextOpenRow_Some[of b col row] by (simp add: set_cell_restore)

lemma countThreats_step_eq:
  "countThreats_step piece col (t, b) = (t + of_bool (immediate_win b piece col), b)"
  by (auto simp: countThreats_step_def immediate_win_def Let_def place_undo split: option.splits)

lemma countThreats_fold:
  "fold (countThreats_step piece) cols (t, b)
       = (t + int (length (filter (immediate_win b piece) cols)), b)"
  by (induction cols arbitrary: t) (simp_all add: countThreats_step_eq)

lemma countThreats_eq:
  "countThreats b piece = (int (immediate_wins b piece), b)"
  by (simp add: countThreats_def immediate_wins_def countThreats_fold COLS_def)

subsection \<open>Move ordering\<close>

lemma move_step_eq:
  "move_step piece col (ms, b) =
     (ms @ (if nonfull b col then [(col, move_score b piece col)] else []), b)"
  by (auto simp: move_step_def nonfull_def move_score_def Let_def place_undo evaluateMoveSimple_def
        split: option.splits)

lemma move_step_fold:
  "fold (move_step piece) cols (ms, b)
     = (ms @ map (\<lambda>c. (c, move_score b piece c)) (filter (nonfull b) cols), b)"
  by (induction cols arbitrary: ms) (simp_all add: move_step_eq)

lemma moves_with_score_eq:
  "moves_with_score b m =
     (map (\<lambda>c. (c, move_score b (side_piece m) c)) (filter (nonfull b) [0..<COLS]), b)"
  by (simp add: moves_with_score_def move_step_fold side_piece_def)

lemma getOptimizedMoves_board: "snd (getOptimizedMoves srt b m) = b"
  by (simp add: getOptimizedMoves_def moves_with_score_eq)

lemma getOptimizedMoves_mset:
  assumes "std_sort_spec srt"
  shows "mset (fst (getOptimizedMoves srt b m)) = mset (filter (nonfull b) [0..<COLS])"
proof -
  let ?ms = "map (\<lambda>c. (c, move_score b (side_piece m) c)) (filter (nonfull b) [0..<COLS])"
  have "mset (srt ?ms) = mset ?ms"
    using assms by (simp add: std_sort_spec_def)
  then have "image_mset fst (mset (srt ?ms)) = image_mset fst (mset ?ms)"
    by (rule arg_cong)
  then have "mset (map fst (srt ?ms)) = mset (map fst ?ms)"
    by (simp only: mset_map)
  also have "map fst ?ms = filter (nonfull b) [0..<COLS]"
    by (simp add: comp_def)
  finally show ?thesis
    by (simp add: getOptimizedMoves_def moves_with_score_eq)
qed

lemma getOptimizedMoves_sorted:
  assumes "std_sort_spec srt"
  shows "sorted_wrt (\<lambda>c c'. move_score b (side_piece m) c \<ge> move_score b (side_piece m) c')
           (fst (getOptimizedMoves srt b m))"
proof -
  let ?ms = "map (\<lambda>c. (c, move_score b (side_piece m) c)) (filter (nonfull b) [0..<COLS])"
  have set_eq: "set (srt ?ms) = set ?ms"
    using assms by (metis std_sort_spec_def set_mset_mset)
  have snd_fst: "snd p = move_score b (side_piece m) (fst p)" if "p \<in> set (srt ?ms)" for p
    using that unfolding set_eq by auto
  have "sorted_wrt (\<lambda>p q. \<not> snd q > snd p) (srt ?ms)"
    using assms by (simp add: std_sort_spec_def)
  then have "sorted_wrt (\<lambda>p q. move_score b (side_piece m) (fst p) \<ge> move_score b (side_piece m) (fst q))
               (srt ?ms)"
    by (rule sorted_wrt_mono_rel[rotated]) (simp add: snd_fst not_less)
  then show ?thesis
    by (simp add: getOptimizedMoves_def moves_with_score_eq sorted_wrt_map)
qed

lemma getOptimizedMoves_set:
  assumes "std_sort_spec srt"
  shows "set (fst (getOptimizedMoves srt b m)) = {c. c < COLS \<and> nonfull b c}"
proof -
  have "set (fst (getOptimizedMoves srt b m)) = set_mset (mset (filter (nonfull b) [0..<COLS]))"
    using getOptimizedMoves_mset[OF assms, of b m] by (metis set_mset_mset)
  then show ?thesis by auto
qed

lemma stable_sort_spec: "std_sort_spec stable_sort"
  unfolding std_sort_spec_def stable_sort_def
proof (intro allI conjI)
  fix xs :: "(nat \<times> int) list"
  show "mset (sort_key (\<lambda>p. - snd p) xs) = mset xs" by simp
  have "sorted (map (\<lambda>p. - snd p) (sort_key (\<lambda>p. - snd p) xs))"
    by (rule sorted_sort_key)
  then show "sorted_wrt (\<lambda>a b. \<not> snd a < snd b) (sort_key (\<lambda>p. - snd p) xs)"
    by (simp add: sorted_map not_less)
qed

text \<open>The insertion sort on the pairs of a column and its score is the insertion sort
  of the columns by descending score, and it lists ascending columns in the order of the
  specification.\<close>

lemma insort_key_map_score:
  "insort_key (\<lambda>p. - snd p) (c, f c) (map (\<lambda>c. (c, f c)) xs)
     = map (\<lambda>c. (c, f c)) (insort_key (\<lambda>c. - f c) c xs)"
  by (induction xs) simp_all

lemma stable_sort_map_score:
  "stable_sort (map (\<lambda>c. (c, f c)) xs) = map (\<lambda>c. (c, f c)) (sort_key (\<lambda>c. - f c) xs)"
  unfolding stable_sort_def
  by (induction xs) (simp_all add: insort_key_map_score)

lemma insort_listed_before:
  assumes "sorted_wrt (listed_before f) ys" and "\<forall>y\<in>set ys. x < y"
  shows "sorted_wrt (listed_before f) (insort_key (\<lambda>c. - f c) x ys)"
  using assms
proof (induction ys)
  case Nil
  then show ?case by simp
next
  case (Cons y ys)
  show ?case
  proof (cases "f y \<le> f x")
    case True
    have "listed_before f x z" if "z \<in> set (y # ys)" for z
    proof -
      have "f z \<le> f y" using that Cons.prems(1) by (auto simp: listed_before_def)
      moreover have "x < z" using that Cons.prems(2) by auto
      ultimately show ?thesis using True by (auto simp: listed_before_def)
    qed
    then show ?thesis using True Cons.prems(1) by simp
  next
    case False
    then have "listed_before f y x" by (simp add: listed_before_def)
    moreover have "sorted_wrt (listed_before f) (insort_key (\<lambda>c. - f c) x ys)"
      using Cons by simp
    ultimately show ?thesis using False Cons.prems(1) by (auto simp: set_insort_key)
  qed
qed

lemma sort_key_listed_before:
  assumes "sorted_wrt (<) xs"
  shows "sorted_wrt (listed_before f) (sort_key (\<lambda>c. - f c) xs)"
  using assms
proof (induction xs)
  case Nil
  then show ?case by simp
next
  case (Cons x xs)
  have "\<forall>y\<in>set (sort_key (\<lambda>c. - f c) xs). x < y" using Cons.prems by simp
  moreover have "sorted_wrt (listed_before f) (sort_key (\<lambda>c. - f c) xs)" using Cons by simp
  ultimately show ?case by (simp add: insort_listed_before)
qed

lemma sorted_filter_upt: "sorted_wrt (<) (filter P [0..<n])"
  by (simp add: sorted_wrt_filter sorted_wrt_less_idx)

lemma getOptimizedMoves_stable:
  "fst (getOptimizedMoves stable_sort b m)
     = sort_key (\<lambda>c. - move_score b (side_piece m) c) (filter (nonfull b) [0..<COLS])"
  by (simp add: getOptimizedMoves_def moves_with_score_eq stable_sort_map_score comp_def)

lemma getOptimizedMoves_listed_before:
  "sorted_wrt (listed_before (move_score b (side_piece m))) (fst (getOptimizedMoves stable_sort b m))"
  unfolding getOptimizedMoves_stable by (rule sort_key_listed_before) (rule sorted_filter_upt)

subsection \<open>The search restores the board\<close>

lemma count_list_update_less:
  "c < length row \<Longrightarrow> row ! c = x \<Longrightarrow> v \<noteq> x \<Longrightarrow>
     Suc (count_list (row[c := v]) x) = count_list row x"
proof (induction row arbitrary: c)
  case Nil
  then show ?case by simp
next
  case (Cons a row)
  then show ?case by (cases c) auto
qed

lemma sum_list_update_less:
  fixes f :: "'a \<Rightarrow> nat"
  shows "r < length xs \<Longrightarrow> Suc (f y) = f (xs ! r) \<Longrightarrow>
     Suc (sum_list (map f (xs[r := y]))) = sum_list (map f xs)"
proof (induction xs arbitrary: r)
  case Nil
  then show ?case by simp
next
  case (Cons a xs)
  then show ?case by (cases r) auto
qed

lemma empties_place:
  assumes "wf_board b" "col < 7" "getNextOpenRow b col = Some row" "v \<noteq> CHR '' ''"
  shows "Suc (empties (set_cell b row col v)) = empties b"
proof -
  from getNextOpenRow_Some[OF assms(3)] have row: "row < 6" and cell: "b ! row ! col = CHR '' ''"
    by auto
  have len: "col < length (b ! row)"
    using assms(1,2) row by (simp add: wf_board_row)
  have "Suc (count_list ((b ! row)[col := v]) (CHR '' '')) = count_list (b ! row) (CHR '' '')"
    using len cell assms(4) by (rule count_list_update_less)
  then show ?thesis
    unfolding empties_def set_cell_def
    using assms(1) row by (intro sum_list_update_less) (simp_all add: wf_board_length)
qed

lemma returns_boardD:
  "returns_board b x \<Longrightarrow> \<exists>res memo'. x = Inr (res, b, memo')"
  by (cases x) (auto simp: returns_board_def)

lemma returns_board_loopD:
  "returns_board b (map_sum id snd x) \<Longrightarrow> \<exists>fl res memo'. x = Inr (fl, res, b, memo')"
  by (cases x) (auto simp: returns_board_def)

lemma returns_board_Inr [simp]: "returns_board b (Inr (res, b', memo')) = (b' = b)"
  by (simp add: returns_board_def)

lemma max_loop_board:
  assumes cols: "\<forall>c \<in> set cols. c < 7 \<and> nonfull b c"
    and rec: "\<And>col row memo alpha beta. col < 7 \<Longrightarrow> getNextOpenRow b col = Some row \<Longrightarrow>
        returns_board (set_cell b row col (CHR ''O'')) (rec (set_cell b row col (CHR ''O'')) memo alpha beta)"
  shows "returns_board b
           (map_sum id snd (max_loop rec root key cols b memo alpha beta bestCol bestScore))"
  using cols
proof (induction cols arbitrary: memo alpha bestCol bestScore)
  case Nil
  show ?case by simp
next
  case (Cons col cols)
  from Cons.prems have col: "col < 7" and "nonfull b col" and rest: "\<forall>c \<in> set cols. c < 7 \<and> nonfull b c"
    by auto
  then obtain row where row: "getNextOpenRow b col = Some row"
    by (auto simp: nonfull_def)
  from returns_boardD[OF rec[OF col row]] obtain res memo1 where
    r: "rec (set_cell b row col (CHR ''O'')) memo alpha beta = Inr (res, set_cell b row col (CHR ''O''), memo1)"
    by blast
  note undo = place_undo[OF row, of "CHR ''O''"]
  show ?case
    using Cons.IH[OF rest] by (simp add: row r undo Let_def)
qed

lemma min_loop_board:
  assumes cols: "\<forall>c \<in> set cols. c < 7 \<and> nonfull b c"
    and rec: "\<And>col row memo alpha beta. col < 7 \<Longrightarrow> getNextOpenRow b col = Some row \<Longrightarrow>
        returns_board (set_cell b row col (CHR ''X'')) (rec (set_cell b row col (CHR ''X'')) memo alpha beta)"
  shows "returns_board b (min_loop rec cols b memo alpha beta bestCol bestScore)"
  using cols
proof (induction cols arbitrary: memo beta bestCol bestScore)
  case Nil
  show ?case by simp
next
  case (Cons col cols)
  from Cons.prems have col: "col < 7" and "nonfull b col" and rest: "\<forall>c \<in> set cols. c < 7 \<and> nonfull b c"
    by auto
  then obtain row where row: "getNextOpenRow b col = Some row"
    by (auto simp: nonfull_def)
  from returns_boardD[OF rec[OF col row]] obtain res memo1 where
    r: "rec (set_cell b row col (CHR ''X'')) memo alpha beta = Inr (res, set_cell b row col (CHR ''X''), memo1)"
    by blast
  note undo = place_undo[OF row, of "CHR ''X''"]
  show ?case
    using Cons.IH[OF rest] by (simp add: row r undo Let_def)
qed

lemma minimax_returns_board:
  assumes "std_sort_spec srt"
  shows "wf_board b \<Longrightarrow> empties b < fuel \<Longrightarrow>
     returns_board b
       (minimax fuel srt b memo depth alpha beta maximizingPlayer isScoreAttack original_depth)"
proof (induction fuel arbitrary: b memo depth alpha beta maximizingPlayer)
  case 0
  then show ?case by simp
next
  case (Suc n)
  note wf = Suc.prems(1)
  let ?d = "clamp_depth b depth isScoreAttack original_depth"
  have child: "returns_board (set_cell b row col v)
      (minimax n srt (set_cell b row col v) memo1 d a1 b1 mp isScoreAttack original_depth)"
    if "col < 7" "getNextOpenRow b col = Some row" "v \<noteq> CHR '' ''" for col row v memo1 d a1 b1 mp
  proof (rule Suc.IH)
    show "wf_board (set_cell b row col v)" using wf by (rule wf_board_set_cell)
    show "empties (set_cell b row col v) < n"
      using empties_place[OF wf that] Suc.prems(2) by simp
  qed
  obtain locs where locs: "getOptimizedMoves srt b maximizingPlayer = (locs, b)"
    using getOptimizedMoves_board[of srt b maximizingPlayer]
    by (cases "getOptimizedMoves srt b maximizingPlayer") simp
  have cols: "\<forall>c \<in> set locs. c < 7 \<and> nonfull b c"
    using getOptimizedMoves_set[OF assms, of b maximizingPlayer] locs by (auto simp: COLS_def)
  have mx: "returns_board b (map_sum id snd (max_loop
        (\<lambda>b' memo' alpha' beta'. minimax n srt b' memo' (?d - 1) alpha' beta' False isScoreAttack original_depth)
        root key locs b memo alpha beta bc bs))" for root key bc bs
    by (rule max_loop_board[OF cols]) (rule child, simp_all)
  have mn: "returns_board b (min_loop
        (\<lambda>b' memo' alpha' beta'. minimax n srt b' memo' (?d - 1) alpha' beta' True isScoreAttack original_depth)
        locs b memo alpha beta bc bs)" for bc bs
    by (rule min_loop_board[OF cols]) (rule child, simp_all)
  show ?case
  proof (cases locs)
    case Nil
    then show ?thesis
      by (simp add: locs split: option.splits)
  next
    case (Cons c0 cs)
    show ?thesis
    proof (cases maximizingPlayer)
      case True
      from returns_board_loopD[OF mx[of "?d = original_depth" "memo_key b depth True" "int c0" INT_MIN]]
      obtain fl res memo' where "max_loop
        (\<lambda>b' memo' alpha' beta'. minimax n srt b' memo' (?d - 1) alpha' beta' False isScoreAttack original_depth)
        (?d = original_depth) (memo_key b depth True) (c0 # cs) b memo alpha beta (int c0) INT_MIN
          = Inr (fl, res, b, memo')"
        unfolding Cons by blast
      then show ?thesis
        using True Cons locs by (auto simp: store_def simp del: max_loop.simps split: option.splits)
    next
      case False
      from returns_boardD[OF mn[of "int c0" INT_MAX]]
      obtain res memo' where "min_loop
        (\<lambda>b' memo' alpha' beta'. minimax n srt b' memo' (?d - 1) alpha' beta' True isScoreAttack original_depth)
        (c0 # cs) b memo alpha beta (int c0) INT_MAX = Inr (res, b, memo')"
        unfolding Cons by blast
      then show ?thesis
        using False Cons locs by (auto simp: store_def simp del: min_loop.simps split: option.splits)
    qed
  qed
qed

subsection \<open>Gravity\<close>

lemma gravity_place:
  assumes wf: "wf_board b" and g: "gravity b" and col: "col < 7"
    and row: "getNextOpenRow b col = Some row"
  shows "gravity (set_cell b row col v)"
  unfolding gravity_def
proof (intro allI impI)
  fix c r r'
  assume c: "c < COLS" and r: "r < ROWS" and e: "set_cell b row col v ! r ! c = CHR '' ''" and r': "r' < r"
  from getNextOpenRow_Some[OF row] have row6: "row < 6" and cell: "b ! row ! col = CHR '' ''"
    and below: "\<forall>r'. row < r' \<and> r' < 6 \<longrightarrow> b ! r' ! col \<noteq> CHR '' ''" by auto
  note nth = set_cell_nth[OF wf row6 col]
  show "set_cell b row col v ! r' ! c = CHR '' ''"
  proof (cases "c = col")
    case False
    with e have "b ! r ! c = CHR '' ''" by (simp add: nth)
    with g c r r' have "b ! r' ! c = CHR '' ''" by (auto simp: gravity_def)
    with False show ?thesis by (simp add: nth)
  next
    case True
    have "r \<le> row"
    proof (rule ccontr)
      assume "\<not> r \<le> row"
      then have "row < r" by simp
      with e True have "b ! r ! col = CHR '' ''" by (simp add: nth)
      with below \<open>row < r\<close> r show False by (simp add: ROWS_def)
    qed
    with r' have "r' < row" by simp
    with g cell col row6 have "b ! r' ! col = CHR '' ''" by (auto simp: gravity_def ROWS_def COLS_def)
    with True \<open>r' < row\<close> show ?thesis by (simp add: nth)
  qed
qed

lemma gravity_clear:
  assumes wf: "wf_board b" and g: "gravity b" and r: "r < 6" and c: "c < 7"
    and top: "\<forall>r' < r. b ! r' ! c = CHR '' ''"
  shows "gravity (set_cell b r c (CHR '' ''))"
  unfolding gravity_def
proof (intro allI impI)
  fix c1 r1 r'
  assume c1: "c1 < COLS" and r1: "r1 < ROWS" and e: "set_cell b r c (CHR '' '') ! r1 ! c1 = CHR '' ''"
    and r': "r' < r1"
  note nth = set_cell_nth[OF wf r c]
  show "set_cell b r c (CHR '' '') ! r' ! c1 = CHR '' ''"
  proof (cases "r1 = r \<and> c1 = c")
    case True
    with top r' show ?thesis by (simp add: nth)
  next
    case False
    with e have "b ! r1 ! c1 = CHR '' ''" by (simp add: nth)
    with g c1 r1 r' have "b ! r' ! c1 = CHR '' ''" by (auto simp: gravity_def)
    then show ?thesis by (simp add: nth)
  qed
qed

lemma step_inv:
  assumes "play_inv s" "step m s = Some s'"
  shows "play_inv s'"
proof (cases s)
  case (Pair b placed)
  with assms(1) have wf: "wf_board b" and g: "gravity b" and ok: "placed_ok b placed"
    by (simp_all add: play_inv_def)
  show ?thesis
  proof (cases m)
    case (Place col player)
    with assms(2) Pair have col: "col < 7" by (simp add: COLS_def split: if_splits)
    show ?thesis
    proof (cases "getNextOpenRow b col")
      case None
      with assms(2) Pair Place col have "s' = (b, placed)"
        by (simp add: dropPiece_def COLS_def)
      with wf g ok show ?thesis by (simp add: play_inv_def)
    next
      case (Some row)
      with assms(2) Pair Place col have s': "s' = (set_cell b row col player, (row, col) # placed)"
        by (simp add: dropPiece_def COLS_def)
      from getNextOpenRow_Some[OF Some] have row6: "row < 6" and cell: "b ! row ! col = CHR '' ''"
        by auto
      have above: "\<forall>r' < row. set_cell b row col player ! r' ! col = CHR '' ''"
        using g cell row6 col by (auto simp: gravity_def ROWS_def COLS_def set_cell_nth[OF wf row6 col])
      show ?thesis
        unfolding s' play_inv_def
        using wf_board_set_cell[OF wf] gravity_place[OF wf g col Some] above row6 col ok
        by (simp add: place_undo[OF Some] ROWS_def COLS_def)
    qed
  next
    case Undo
    with assms(2) Pair obtain row col rest where placed: "placed = (row, col) # rest"
      and s': "s' = (set_cell b row col (CHR '' ''), rest)"
      by (cases placed) auto
    from ok placed have row6: "row < 6" and col: "col < 7"
      and top: "\<forall>r' < row. b ! r' ! col = CHR '' ''"
      and ok': "placed_ok (set_cell b row col (CHR '' '')) rest"
      by (simp_all add: ROWS_def COLS_def)
    show ?thesis
      unfolding s' play_inv_def
      using wf_board_set_cell[OF wf] gravity_clear[OF wf g row6 col top] ok' by simp
  qed
qed

lemma run_inv: "play_inv s \<Longrightarrow> run ms s = Some s' \<Longrightarrow> play_inv s'"
proof (induction ms arbitrary: s)
  case Nil
  then show ?case by simp
next
  case (Cons m ms)
  from Cons.prems(2) obtain s1 where s1: "step m s = Some s1" and rest: "run ms s1 = Some s'"
    by (auto split: option.splits)
  from step_inv[OF Cons.prems(1) s1] rest show ?case by (rule Cons.IH)
qed

lemma initBoard_nth: "r < 6 \<Longrightarrow> c < 7 \<Longrightarrow> initBoard ! r ! c = CHR '' ''"
  by (simp add: initBoard_def ROWS_def COLS_def)

lemma init_inv: "play_inv (initBoard, [])"
  by (simp add: play_inv_def wf_board_def gravity_def initBoard_def ROWS_def COLS_def list_all_length)

subsection \<open>Closed forms of the evaluation and of the adaptive depth\<close>

lemma fold_add: "fold (\<lambda>x (s::int). s + f x) xs a = a + sum_list (map f xs)"
  by (induction xs arbitrary: a) auto

lemma fold_fold_add:
  "fold (\<lambda>x. fold (\<lambda>y (s::int). s + f x y) ys) xs a
     = a + sum_list (concat (map (\<lambda>x. map (f x) ys) xs))"
  by (induction xs arbitrary: a) (auto simp: fold_add)

lemma fold_center_step:
  "fold (center_step b piece) rs a =
     a + 200 * int (length (filter (\<lambda>r. b ! r ! 3 = piece) rs))
       + 100 * int (length (filter (\<lambda>r. b ! r ! 2 = piece \<or> b ! r ! 4 = piece) rs))"
  by (induction rs arbitrary: a) (auto simp: center_step_def COLS_def Let_def)

lemma fold_diag_add:
  "fold (\<lambda>x (s::int). fold (\<lambda>y s. s + g x y) zs (fold (\<lambda>y s. s + f x y) ys s)) xs a
     = a + sum_list (concat (map (\<lambda>x. map (f x) ys) xs)) + sum_list (concat (map (\<lambda>x. map (g x) zs) xs))"
  by (induction xs arbitrary: a) (auto simp: fold_add)

lemma evaluateBoard_closed_form:
  "evaluateBoard b piece =
     sum_list (map (window_score b piece) all_windows)
     + 200 * int (pieces_in_column b piece 3)
     + 100 * int (rows_with_flank b piece)"
  by (simp add: evaluateBoard_def fold_center_step fold_fold_add fold_diag_add Let_def
        all_windows_def horizontal_windows_def vertical_windows_def falling_windows_def
        rising_windows_def window_score_def cell_def pieces_in_column_def rows_with_flank_def
        map_concat comp_def
        del: upt_Suc)

lemma fold_count:
  "fold (\<lambda>x (n::int). if Q x then n + 1 else n) xs a = a + int (length (filter Q xs))"
  by (induction xs arbitrary: a) auto

lemma fold_fold_count:
  "fold (\<lambda>x. fold (\<lambda>y (n::int). if Q x y then n + 1 else n) ys) xs a
     = a + int (length (filter (\<lambda>(x, y). Q x y) (List.product xs ys)))"
  by (induction xs arbitrary: a) (auto simp: fold_count filter_map comp_def)

lemma count_cells_occupied: "count_cells (\<lambda>c. c \<noteq> CHR '' '') b = int (occupied b)"
  by (simp add: count_cells_def occupied_def fold_fold_count)

lemma getAdaptiveDepth_eq:
  "getAdaptiveDepth b base =
     (adaptive_depth_spec (immediate_wins b (CHR ''O'') + immediate_wins b (CHR ''X'')) (occupied b) base, b)"
  by (simp add: getAdaptiveDepth_def countThreats_eq count_cells_occupied adaptive_depth_spec_def Let_def)

section \<open>Computation on a concrete board\<close>

text \<open>The window score, the board evaluation and the line test, read off the rows of a
  board that is written out cell by cell, agree with the program's loops.\<close>

lemma wtabn_wtab:
  "wtabn (bump a1 (bump a2 (bump a3 (bump a4 0)))) (bump e1 (bump e2 (bump e3 (bump e4 0)))) ends conn
     = wtab (of_bool a1 + of_bool a2 + of_bool a3 + of_bool a4)
            (of_bool e1 + of_bool e2 + of_bool e3 + of_bool e4) ends conn"
  by (cases a1; cases a2; cases a3; cases a4; cases e1; cases e2; cases e3; cases e4)
     (simp_all add: wtab_def)

lemma evaluateWindow_cls:
  "evaluateWindow c1 c2 c3 c4 p = wscore (cls p c1) (cls p c2) (cls p c3) (cls p c4)"
  by (simp add: wscore_def wtabn_wtab cls_def)
     (simp add: evaluateWindow_def wtab_def offense_def defense_def countOpp_def
        countPiece_def countEmpty_def)

lemma cls_table:
  "cls (CHR ''O'') (CHR ''O'') = (True, False)" "cls (CHR ''O'') (CHR ''X'') = (False, False)"
  "cls (CHR ''O'') (CHR '' '') = (False, True)"
  "cls (CHR ''X'') (CHR ''X'') = (True, False)" "cls (CHR ''X'') (CHR ''O'') = (False, False)"
  "cls (CHR ''X'') (CHR '' '') = (False, True)"
  by (simp_all add: cls_def)

lemma up6: "[0..<6] = [0,1,2,3,4,5]"
  by (simp add: upt_conv_Cons)

lemma up7: "[0..<7] = [0,1,2,3,4,5,6]" "[0..<4] = [0,1,2,3]" "[0..<3] = [0,1,2]" "[3..<7] = [3,4,5,6]"
  by (simp_all add: upt_conv_Cons)

lemma center_step_alt: "center_step b p r s = s + center_bonus (map (cls p) (b ! r))" if "length (b ! r) = 7"
  using that by (simp add: center_step_def center_bonus_def COLS_def Let_def cls_def)

lemma evaluateBoard_rows:
  "evaluateBoard
     [[a0,a1,a2,a3,a4,a5,a6],[b0,b1,b2,b3,b4,b5,b6],[c0,c1,c2,c3,c4,c5,c6],
      [d0,d1,d2,d3,d4,d5,d6],[e0,e1,e2,e3,e4,e5,e6],[f0,f1,f2,f3,f4,f5,f6]] p =
   eval_rows (map (map (cls p)) [[a0,a1,a2,a3,a4,a5,a6],[b0,b1,b2,b3,b4,b5,b6],[c0,c1,c2,c3,c4,c5,c6],
      [d0,d1,d2,d3,d4,d5,d6],[e0,e1,e2,e3,e4,e5,e6],[f0,f1,f2,f3,f4,f5,f6]])"
  by (simp add: evaluateBoard_def center_step_alt ROWS_def COLS_def up6 up7 Let_def eval_rows_def evaluateWindow_cls
         del: upt_Suc split del: if_split)

lemma checkWin_rows:
  "checkWin
     [[a0,a1,a2,a3,a4,a5,a6],[b0,b1,b2,b3,b4,b5,b6],[c0,c1,c2,c3,c4,c5,c6],
      [d0,d1,d2,d3,d4,d5,d6],[e0,e1,e2,e3,e4,e5,e6],[f0,f1,f2,f3,f4,f5,f6]] p =
   win_rows (map (map (cls p)) [[a0,a1,a2,a3,a4,a5,a6],[b0,b1,b2,b3,b4,b5,b6],[c0,c1,c2,c3,c4,c5,c6],
      [d0,d1,d2,d3,d4,d5,d6],[e0,e1,e2,e3,e4,e5,e6],[f0,f1,f2,f3,f4,f5,f6]])"
  by (simp add: checkWin_def ROWS_def COLS_def up6 up7 win_rows_def cls_def
        del: upt_Suc split del: if_split)

lemma getNextOpenRow_unfold:
  "getNextOpenRow b col =
     (if b ! 5 ! col = CHR '' '' then Some 5 else if b ! 4 ! col = CHR '' '' then Some 4
      else if b ! 3 ! col = CHR '' '' then Some 3 else if b ! 2 ! col = CHR '' '' then Some 2
      else if b ! 1 ! col = CHR '' '' then Some 1 else if b ! 0 ! col = CHR '' '' then Some 0
      else None)"
  by (simp add: getNextOpenRow_def ROWS_def eval_nat_numeral)

lemma getBoardHash_rows:
  "getBoardHash
     [[a0,a1,a2,a3,a4,a5,a6],[b0,b1,b2,b3,b4,b5,b6],[c0,c1,c2,c3,c4,c5,c6],
      [d0,d1,d2,d3,d4,d5,d6],[e0,e1,e2,e3,e4,e5,e6],[f0,f1,f2,f3,f4,f5,f6]] =
     [a0,a1,a2,a3,a4,a5,a6,b0,b1,b2,b3,b4,b5,b6,c0,c1,c2,c3,c4,c5,c6,
      d0,d1,d2,d3,d4,d5,d6,e0,e1,e2,e3,e4,e5,e6,f0,f1,f2,f3,f4,f5,f6]"
  by (simp add: getBoardHash_def ROWS_def COLS_def up6 up7 del: upt_Suc)

lemma clamp_depth_score_attack: "clamp_depth b depth True od = depth"
  by (simp add: clamp_depth_def)

lemma count_cells_product:
  "count_cells P b = int (length (filter (\<lambda>(r, c). P (b ! r ! c)) (List.product [0..<ROWS] [0..<COLS])))"
  by (simp add: count_cells_def fold_fold_count)

lemma count_cells_rows:
  "count_cells P
     [[a0,a1,a2,a3,a4,a5,a6],[b0,b1,b2,b3,b4,b5,b6],[c0,c1,c2,c3,c4,c5,c6],
      [d0,d1,d2,d3,d4,d5,d6],[e0,e1,e2,e3,e4,e5,e6],[f0,f1,f2,f3,f4,f5,f6]] =
   int (length (filter P
     [a0,a1,a2,a3,a4,a5,a6,b0,b1,b2,b3,b4,b5,b6,c0,c1,c2,c3,c4,c5,c6,
      d0,d1,d2,d3,d4,d5,d6,e0,e1,e2,e3,e4,e5,e6,f0,f1,f2,f3,f4,f5,f6]))"
  unfolding count_cells_product
  by (simp add: ROWS_def COLS_def up6 up7 del: upt_Suc)

lemma initBoard_rows:
  "initBoard = [''       '', ''       '', ''       '', ''       '', ''       '', ''       '']"
  by (simp add: initBoard_def ROWS_def COLS_def eval_nat_numeral)

text \<open>The rewrite rules that run the program on a board written out row by row.\<close>

lemmas board_eval =
  getNextOpenRow_unfold set_cell_def checkWin_rows evaluateBoard_rows win_rows_def eval_rows_def
  center_bonus_def cls_table wscore_def COLS_def ROWS_def up6 up7

lemmas moves_eval =
  getOptimizedMoves_def moves_with_score_eq nonfull_def move_score_def side_piece_def
  stable_sort_def immediate_wins_def immediate_win_def

lemmas search_eval =
  store_def MAX_MEMORY_SIZE_def INT_MIN_def INT_MAX_def memo_key_def getBoardHash_rows
  to_string_def digits.simps clamp_depth_score_attack Let_def

section \<open>The window score\<close>

lemma countPiece_own_cells:
  "countPiece c1 c2 c3 c4 piece = int (own_cells [c1, c2, c3, c4] piece)"
  by (simp add: countPiece_def own_cells_def)

lemma countEmpty_empty_cells_in:
  "countEmpty c1 c2 c3 c4 = int (empty_cells_in [c1, c2, c3, c4])"
  by (simp add: countEmpty_def empty_cells_in_def)

lemma countOpp_opp_cells:
  "piece \<noteq> CHR '' '' \<Longrightarrow> countOpp c1 c2 c3 c4 piece = int (opp_cells [c1, c2, c3, c4] piece)"
  by (simp add: countOpp_def countPiece_def countEmpty_def opp_cells_def)


lemma no_open_own_three: "\<not> (countPiece c1 c2 c3 c4 piece = 3 \<and> countEmpty c1 c2 c3 c4 = 1
                \<and> c1 = CHR '' '' \<and> c4 = CHR '' '')"
  by (simp add: countPiece_def countEmpty_def of_bool_def)

lemma offense_values: "offense c1 c2 c3 c4 piece \<in> {0, 50, 60, 150}"
proof -
  have "\<And>np ne e c. \<not> (np = 3 \<and> ne = 1 \<and> e) \<Longrightarrow>
      (if np = (3::int) \<and> ne = (1::int) then (if e then 5000 else 150)
       else if np = 2 \<and> ne = 2 then (if c then 50 else 60) else 0) \<in> {0, 50, 60, 150::int}"
    by auto
  from this[of "countPiece c1 c2 c3 c4 piece" "countEmpty c1 c2 c3 c4" "c1 = CHR '' '' \<and> c4 = CHR '' ''"]
    no_open_own_three[of c1 c2 c3 c4 piece]
  show ?thesis unfolding offense_def by blast
qed

lemma no_open_three:
  "\<not> (countOpp c1 c2 c3 c4 piece = 3 \<and> countEmpty c1 c2 c3 c4 = 1 \<and> c1 = CHR '' '' \<and> c4 = CHR '' '')"
  by (simp add: countOpp_def countPiece_def countEmpty_def of_bool_def)

lemma defense_values: "defense c1 c2 c3 c4 piece \<in> {0, - 50, - 500}"
proof -
  have "\<And>np ne e. \<not> (np = 3 \<and> ne = 1 \<and> e) \<Longrightarrow>
      (if np = (3::int) \<and> ne = (1::int) then (if e then - 10000 else - 500)
       else if np = 2 \<and> ne = 2 then - 50 else 0) \<in> {0, - 50, - 500::int}"
    by auto
  from this[of "countOpp c1 c2 c3 c4 piece" "countEmpty c1 c2 c3 c4" "c1 = CHR '' '' \<and> c4 = CHR '' ''"]
    no_open_three[of c1 c2 c3 c4 piece]
  show ?thesis unfolding defense_def by blast
qed

lemma offense_defense_excl:
  "offense c1 c2 c3 c4 piece = 0 \<or> defense c1 c2 c3 c4 piece = 0"
proof -
  have "\<And>np ne (x::int) y (z::int) w. 
      (if np = (3::int) \<and> ne = (1::int) then x else if np = 2 \<and> ne = 2 then y else 0) = 0
      \<or> (if 4 - np - ne = 3 \<and> ne = 1 then z else if 4 - np - ne = 2 \<and> ne = 2 then w else 0) = 0"
    by auto
  then show ?thesis unfolding offense_def defense_def countOpp_def by blast
qed

lemma ew_values: "evaluateWindow c1 c2 c3 c4 piece \<in> {1000000, 150, 60, 50, 0, - 50, - 500}"
  using offense_values[of c1 c2 c3 c4 piece] defense_values[of c1 c2 c3 c4 piece]
    offense_defense_excl[of c1 c2 c3 c4 piece]
  unfolding evaluateWindow_def by auto

lemma evaluateWindow_counts:
  assumes "piece \<noteq> CHR '' ''"
  shows "evaluateWindow c1 c2 c3 c4 piece =
     (if own_cells [c1, c2, c3, c4] piece = 4 then 1000000
      else (if own_cells [c1, c2, c3, c4] piece = 3 \<and> empty_cells_in [c1, c2, c3, c4] = 1 then
              (if both_ends_empty [c1, c2, c3, c4] then 5000 else 150)
            else if own_cells [c1, c2, c3, c4] piece = 2 \<and> empty_cells_in [c1, c2, c3, c4] = 2 then
              (if adjacent_pair [c1, c2, c3, c4] piece then 50 else 60)
            else 0)
         + (if opp_cells [c1, c2, c3, c4] piece = 3 \<and> empty_cells_in [c1, c2, c3, c4] = 1 then
              (if both_ends_empty [c1, c2, c3, c4] then - 10000 else - 500)
            else if opp_cells [c1, c2, c3, c4] piece = 2 \<and> empty_cells_in [c1, c2, c3, c4] = 2 then - 50
            else 0))"
proof -
  have ends: "both_ends_empty [c1, c2, c3, c4] = (c1 = CHR '' '' \<and> c4 = CHR '' '')"
    by (simp add: both_ends_empty_def)
  have adj: "adjacent_pair [c1, c2, c3, c4] piece
      = ((c1 = piece \<and> c2 = piece) \<or> (c2 = piece \<and> c3 = piece) \<or> (c3 = piece \<and> c4 = piece))"
    by (simp add: adjacent_pair_def)
  define n where "n = own_cells [c1, c2, c3, c4] piece"
  define e where "e = empty_cells_in [c1, c2, c3, c4]"
  define q where "q = opp_cells [c1, c2, c3, c4] piece"
  have n: "countPiece c1 c2 c3 c4 piece = int n"
    unfolding n_def by (rule countPiece_own_cells)
  have e: "countEmpty c1 c2 c3 c4 = int e"
    unfolding e_def by (rule countEmpty_empty_cells_in)
  have q: "countOpp c1 c2 c3 c4 piece = int q"
    unfolding q_def by (rule countOpp_opp_cells[OF assms])
  show ?thesis
    unfolding evaluateWindow_def offense_def defense_def ends adj n e q
      n_def[symmetric] e_def[symmetric] q_def[symmetric]
    by simp
qed

lemma cells_total:
  "piece \<noteq> CHR '' '' \<Longrightarrow>
   own_cells [c1, c2, c3, c4] piece + empty_cells_in [c1, c2, c3, c4] + opp_cells [c1, c2, c3, c4] piece = 4"
  by (simp add: own_cells_def empty_cells_in_def opp_cells_def)

text \<open>Claim C3. For a perspective piece (a character other than the empty cell) and any
  four cell values, \<^verbatim>\<open>evaluateWindow\<close> returns the entry of the scoring table: four own
  pieces score 1,000,000; three own pieces and one empty cell, not both ends empty, score
  150; two own pieces and two empty cells score 50 when two own pieces are adjacent and 60
  when they are split; three opponent pieces and one empty cell, not both ends empty, score
  -500; two opponent pieces and two empty cells score -50; every other pattern scores 0.
  The three windows named in the specification score 150, 60 and 50, and the split window
  scores strictly more than the connected one.\<close>

theorem evaluateWindow_table:
  assumes "piece \<noteq> CHR '' ''"
  shows "(own_cells [c1, c2, c3, c4] piece = 4 \<longrightarrow> evaluateWindow c1 c2 c3 c4 piece = 1000000)
    \<and> (own_cells [c1, c2, c3, c4] piece = 3 \<and> empty_cells_in [c1, c2, c3, c4] = 1
         \<and> \<not> both_ends_empty [c1, c2, c3, c4] \<longrightarrow> evaluateWindow c1 c2 c3 c4 piece = 150)
    \<and> (own_cells [c1, c2, c3, c4] piece = 2 \<and> empty_cells_in [c1, c2, c3, c4] = 2
         \<and> adjacent_pair [c1, c2, c3, c4] piece \<longrightarrow> evaluateWindow c1 c2 c3 c4 piece = 50)
    \<and> (own_cells [c1, c2, c3, c4] piece = 2 \<and> empty_cells_in [c1, c2, c3, c4] = 2
         \<and> \<not> adjacent_pair [c1, c2, c3, c4] piece \<longrightarrow> evaluateWindow c1 c2 c3 c4 piece = 60)
    \<and> (opp_cells [c1, c2, c3, c4] piece = 3 \<and> empty_cells_in [c1, c2, c3, c4] = 1
         \<and> \<not> both_ends_empty [c1, c2, c3, c4] \<longrightarrow> evaluateWindow c1 c2 c3 c4 piece = - 500)
    \<and> (opp_cells [c1, c2, c3, c4] piece = 2 \<and> empty_cells_in [c1, c2, c3, c4] = 2
         \<longrightarrow> evaluateWindow c1 c2 c3 c4 piece = - 50)
    \<and> (own_cells [c1, c2, c3, c4] piece \<noteq> 4
         \<and> \<not> (own_cells [c1, c2, c3, c4] piece = 3 \<and> empty_cells_in [c1, c2, c3, c4] = 1)
         \<and> \<not> (own_cells [c1, c2, c3, c4] piece = 2 \<and> empty_cells_in [c1, c2, c3, c4] = 2)
         \<and> \<not> (opp_cells [c1, c2, c3, c4] piece = 3 \<and> empty_cells_in [c1, c2, c3, c4] = 1)
         \<and> \<not> (opp_cells [c1, c2, c3, c4] piece = 2 \<and> empty_cells_in [c1, c2, c3, c4] = 2)
         \<longrightarrow> evaluateWindow c1 c2 c3 c4 piece = 0)
    \<and> evaluateWindow (CHR '' '') (CHR ''X'') (CHR ''X'') (CHR ''X'') (CHR ''X'') = 150
    \<and> evaluateWindow (CHR ''X'') (CHR '' '') (CHR ''X'') (CHR '' '') (CHR ''X'') = 60
    \<and> evaluateWindow (CHR ''X'') (CHR ''X'') (CHR '' '') (CHR '' '') (CHR ''X'') = 50
    \<and> evaluateWindow (CHR ''X'') (CHR ''X'') (CHR '' '') (CHR '' '') (CHR ''X'')
        < evaluateWindow (CHR ''X'') (CHR '' '') (CHR ''X'') (CHR '' '') (CHR ''X'')"
proof -
  note ew = evaluateWindow_counts[OF assms, of c1 c2 c3 c4]
  note tot = cells_total[OF assms, of c1 c2 c3 c4]
  have r1: "own_cells [c1, c2, c3, c4] piece = 4 \<longrightarrow> evaluateWindow c1 c2 c3 c4 piece = 1000000"
    by (simp add: ew)
  have r2: "own_cells [c1, c2, c3, c4] piece = 3 \<and> empty_cells_in [c1, c2, c3, c4] = 1
         \<and> \<not> both_ends_empty [c1, c2, c3, c4] \<longrightarrow> evaluateWindow c1 c2 c3 c4 piece = 150"
    using tot by (simp add: ew)
  have r3: "own_cells [c1, c2, c3, c4] piece = 2 \<and> empty_cells_in [c1, c2, c3, c4] = 2
         \<and> adjacent_pair [c1, c2, c3, c4] piece \<longrightarrow> evaluateWindow c1 c2 c3 c4 piece = 50"
    using tot by (simp add: ew)
  have r4: "own_cells [c1, c2, c3, c4] piece = 2 \<and> empty_cells_in [c1, c2, c3, c4] = 2
         \<and> \<not> adjacent_pair [c1, c2, c3, c4] piece \<longrightarrow> evaluateWindow c1 c2 c3 c4 piece = 60"
    using tot by (simp add: ew)
  have r5: "opp_cells [c1, c2, c3, c4] piece = 3 \<and> empty_cells_in [c1, c2, c3, c4] = 1
         \<and> \<not> both_ends_empty [c1, c2, c3, c4] \<longrightarrow> evaluateWindow c1 c2 c3 c4 piece = - 500"
    using tot by (simp add: ew)
  have r6: "opp_cells [c1, c2, c3, c4] piece = 2 \<and> empty_cells_in [c1, c2, c3, c4] = 2
         \<longrightarrow> evaluateWindow c1 c2 c3 c4 piece = - 50"
    using tot by (simp add: ew)
  have r7: "own_cells [c1, c2, c3, c4] piece \<noteq> 4
         \<and> \<not> (own_cells [c1, c2, c3, c4] piece = 3 \<and> empty_cells_in [c1, c2, c3, c4] = 1)
         \<and> \<not> (own_cells [c1, c2, c3, c4] piece = 2 \<and> empty_cells_in [c1, c2, c3, c4] = 2)
         \<and> \<not> (opp_cells [c1, c2, c3, c4] piece = 3 \<and> empty_cells_in [c1, c2, c3, c4] = 1)
         \<and> \<not> (opp_cells [c1, c2, c3, c4] piece = 2 \<and> empty_cells_in [c1, c2, c3, c4] = 2)
         \<longrightarrow> evaluateWindow c1 c2 c3 c4 piece = 0"
    by (simp add: ew)
  have c1: "evaluateWindow (CHR '' '') (CHR ''X'') (CHR ''X'') (CHR ''X'') (CHR ''X'') = 150"
    by (simp add: evaluateWindow_def offense_def defense_def countOpp_def countPiece_def countEmpty_def)
  have c2: "evaluateWindow (CHR ''X'') (CHR '' '') (CHR ''X'') (CHR '' '') (CHR ''X'') = 60"
    by (simp add: evaluateWindow_def offense_def defense_def countOpp_def countPiece_def countEmpty_def)
  have c3: "evaluateWindow (CHR ''X'') (CHR ''X'') (CHR '' '') (CHR '' '') (CHR ''X'') = 50"
    by (simp add: evaluateWindow_def offense_def defense_def countOpp_def countPiece_def countEmpty_def)
  have c4: "evaluateWindow (CHR ''X'') (CHR ''X'') (CHR '' '') (CHR '' '') (CHR ''X'')
        < evaluateWindow (CHR ''X'') (CHR '' '') (CHR ''X'') (CHR '' '') (CHR ''X'')"
    unfolding c2 c3 by simp
  from r1 r2 r3 r4 r5 r6 r7 c1 c2 c3 c4 show ?thesis by blast
qed

theorem evaluateWindow_table_witness:
  "CHR ''O'' \<noteq> CHR '' ''
   \<and> own_cells [CHR ''O'', CHR ''O'', CHR ''O'', CHR ''O''] (CHR ''O'') = 4
   \<and> evaluateWindow (CHR ''O'') (CHR ''O'') (CHR ''O'') (CHR ''O'') (CHR ''O'') = 1000000
   \<and> own_cells [CHR ''O'', CHR ''O'', CHR '' '', CHR ''O''] (CHR ''O'') = 3
   \<and> empty_cells_in [CHR ''O'', CHR ''O'', CHR '' '', CHR ''O''] = 1
   \<and> \<not> both_ends_empty [CHR ''O'', CHR ''O'', CHR '' '', CHR ''O'']
   \<and> evaluateWindow (CHR ''O'') (CHR ''O'') (CHR '' '') (CHR ''O'') (CHR ''O'') = 150
   \<and> adjacent_pair [CHR '' '', CHR ''O'', CHR ''O'', CHR '' ''] (CHR ''O'')
   \<and> evaluateWindow (CHR '' '') (CHR ''O'') (CHR ''O'') (CHR '' '') (CHR ''O'') = 50
   \<and> \<not> adjacent_pair [CHR ''O'', CHR '' '', CHR '' '', CHR ''O''] (CHR ''O'')
   \<and> evaluateWindow (CHR ''O'') (CHR '' '') (CHR '' '') (CHR ''O'') (CHR ''O'') = 60
   \<and> opp_cells [CHR ''X'', CHR ''X'', CHR '' '', CHR ''X''] (CHR ''O'') = 3
   \<and> evaluateWindow (CHR ''X'') (CHR ''X'') (CHR '' '') (CHR ''X'') (CHR ''O'') = - 500
   \<and> opp_cells [CHR '' '', CHR ''X'', CHR '' '', CHR ''X''] (CHR ''O'') = 2
   \<and> evaluateWindow (CHR '' '') (CHR ''X'') (CHR '' '') (CHR ''X'') (CHR ''O'') = - 50
   \<and> evaluateWindow (CHR ''X'') (CHR ''O'') (CHR '' '') (CHR ''O'') (CHR ''O'') = 0"
  using evaluateWindow_table[of "CHR ''O''" "CHR ''O''" "CHR ''O''" "CHR ''O''" "CHR ''O''"]
    evaluateWindow_table[of "CHR ''O''" "CHR ''O''" "CHR ''O''" "CHR '' ''" "CHR ''O''"]
    evaluateWindow_table[of "CHR ''O''" "CHR '' ''" "CHR ''O''" "CHR ''O''" "CHR '' ''"]
    evaluateWindow_table[of "CHR ''O''" "CHR ''O''" "CHR '' ''" "CHR '' ''" "CHR ''O''"]
    evaluateWindow_table[of "CHR ''O''" "CHR ''X''" "CHR ''X''" "CHR '' ''" "CHR ''X''"]
    evaluateWindow_table[of "CHR ''O''" "CHR '' ''" "CHR ''X''" "CHR '' ''" "CHR ''X''"]
    evaluateWindow_table[of "CHR ''O''" "CHR ''X''" "CHR ''O''" "CHR '' ''" "CHR ''O''"]
  by (simp add: opp_cells_def empty_cells_in_def both_ends_empty_def own_cells_def adjacent_pair_def)

text \<open>Claim C7. Whatever the four cells and the perspective piece, the counters of
  \<^verbatim>\<open>evaluateWindow\<close> never show three own pieces and one empty cell while both end
  cells are empty; so the branch that adds 5000 is never taken: the offensive part of the
  score is 0, 50, 60 or 150, and the value returned is one of 1,000,000, 150, 60, 50, 0,
  -50 and -500.\<close>

theorem evaluateWindow_never_5000:
  "\<not> (countPiece c1 c2 c3 c4 piece = 3 \<and> countEmpty c1 c2 c3 c4 = 1
        \<and> c1 = CHR '' '' \<and> c4 = CHR '' '')
   \<and> offense c1 c2 c3 c4 piece \<in> {0, 50, 60, 150}
   \<and> evaluateWindow c1 c2 c3 c4 piece \<in> {1000000, 150, 60, 50, 0, - 50, - 500}"
  using no_open_own_three[of c1 c2 c3 c4 piece] offense_values[of c1 c2 c3 c4 piece]
    ew_values[of c1 c2 c3 c4 piece]
  by blast

subsection \<open>The range of the evaluation\<close>

lemma sum_list_between:
  fixes f :: "'a \<Rightarrow> int"
  assumes "\<And>x. lo \<le> f x \<and> f x \<le> hi"
  shows "int (length xs) * lo \<le> sum_list (map f xs) \<and> sum_list (map f xs) \<le> int (length xs) * hi"
proof (induction xs)
  case Nil
  show ?case by simp
next
  case (Cons x xs)
  with assms[of x] show ?case by (simp add: algebra_simps)
qed

lemma length_all_windows: "length all_windows = 69"
  by (simp add: all_windows_def horizontal_windows_def vertical_windows_def falling_windows_def
        rising_windows_def ROWS_def COLS_def length_concat comp_def sum_list_triv)

lemma window_score_range: "- 500 \<le> window_score b piece w \<and> window_score b piece w \<le> 1000000"
  using ew_values[of "cell b (fst w)" "cell b (fst (snd w))" "cell b (fst (snd (snd w)))"
      "cell b (snd (snd (snd w)))" piece]
  by (cases w) (auto simp: window_score_def)

text \<open>The scores are C++ \<^verbatim>\<open>int\<close>s, modelled as integers. No evaluation leaves the range
  of a 32-bit \<^verbatim>\<open>int\<close>.\<close>

lemma evaluateBoard_range:
  "- 34500 \<le> evaluateBoard b piece \<and> evaluateBoard b piece \<le> 69001800"
proof -
  have w: "- 34500 \<le> sum_list (map (window_score b piece) all_windows)
        \<and> sum_list (map (window_score b piece) all_windows) \<le> 69000000"
    using sum_list_between[of "- 500" "window_score b piece" 1000000 all_windows]
      window_score_range[of b piece]
    by (simp add: length_all_windows)
  have c: "pieces_in_column b piece 3 \<le> 6"
    using length_filter_le[of "\<lambda>r. b ! r ! 3 = piece" "[0..<ROWS]"]
    by (simp add: pieces_in_column_def ROWS_def)
  have f: "rows_with_flank b piece \<le> 6"
    using length_filter_le[of "\<lambda>r. b ! r ! 2 = piece \<or> b ! r ! 4 = piece" "[0..<ROWS]"]
    by (simp add: rows_with_flank_def ROWS_def)
  from w c f show ?thesis
    unfolding evaluateBoard_closed_form by linarith
qed

section \<open>The claims about the search\<close>

text \<open>Claim C9. Gravity. Every board reached from the empty board by placements with
  \<^verbatim>\<open>dropPiece\<close> in columns of the grid and by undos of the latest placement not yet
  undone has, in every column, only empty cells above an empty cell; equivalently, the cell
  below an occupied cell is occupied.\<close>

theorem gravity_invariant:
  assumes "run ms (initBoard, []) = Some (b, placed)"
  shows "(\<forall>col < COLS. \<forall>r < ROWS. b ! r ! col = CHR '' '' \<longrightarrow> (\<forall>r' < r. b ! r' ! col = CHR '' ''))
       \<and> (\<forall>col < COLS. \<forall>r. r + 1 < ROWS \<and> b ! r ! col \<noteq> CHR '' '' \<longrightarrow> b ! (r + 1) ! col \<noteq> CHR '' '')"
proof -
  from run_inv[OF init_inv assms] have g: "gravity b" by (simp add: play_inv_def)
  then have 1: "\<forall>col < COLS. \<forall>r < ROWS. b ! r ! col = CHR '' '' \<longrightarrow> (\<forall>r' < r. b ! r' ! col = CHR '' '')"
    by (simp add: gravity_def)
  have 2: "\<forall>col < COLS. \<forall>r. r + 1 < ROWS \<and> b ! r ! col \<noteq> CHR '' '' \<longrightarrow> b ! (r + 1) ! col \<noteq> CHR '' ''"
  proof (intro allI impI)
    fix col r
    assume "col < COLS" and "r + 1 < ROWS \<and> b ! r ! col \<noteq> CHR '' ''"
    with 1 show "b ! (r + 1) ! col \<noteq> CHR '' ''"
      by (metis lessI add.commute plus_1_eq_Suc)
  qed
  from 1 2 show ?thesis by blast
qed

theorem gravity_invariant_witness:
  "run example_play (initBoard, []) = Some (example_board, [(5, 0), (4, 3), (5, 3)])
   \<and> example_board ! 4 ! 3 \<noteq> CHR '' '' \<and> example_board ! 5 ! 3 \<noteq> CHR '' ''
   \<and> example_board ! 3 ! 3 = CHR '' '' \<and> example_board ! 2 ! 3 = CHR '' ''"
proof -
  have r: "run example_play (initBoard, []) = Some (example_board, [(5, 0), (4, 3), (5, 3)])"
    by (simp add: example_play_def example_board_def initBoard_rows dropPiece_def getNextOpenRow_unfold
          set_cell_def COLS_def ROWS_def)
  have c: "(3::nat) < COLS" "(3::nat) < ROWS" "(4::nat) + 1 < ROWS" "(2::nat) < 3"
    by (simp_all add: COLS_def ROWS_def)
  have e: "example_board ! 4 ! 3 \<noteq> CHR '' ''" "example_board ! 3 ! 3 = CHR '' ''"
    by (simp_all add: example_board_def)
  from gravity_invariant[OF r] c e have "example_board ! 5 ! 3 \<noteq> CHR '' ''" "example_board ! 2 ! 3 = CHR '' ''"
    by (metis Suc_eq_plus1 eval_nat_numeral(3) numeral_plus_one semiring_norm(5))+
  with r e show ?thesis by blast
qed

text \<open>Claim C10. The search leaves the board unchanged. For a 6 by 7 board, any cache, any
  depth, window, side, mode and original depth, and any sorting routine that meets the
  contract of \<^verbatim>\<open>std::sort\<close>, \<^verbatim>\<open>minimax\<close> returns once it has more fuel than the
  board has empty cells, and whichever way it returns, the board it leaves is the board it
  was given; \<^verbatim>\<open>getOptimizedMoves\<close> and \<^verbatim>\<open>countThreats\<close> leave the board
  unchanged as well.\<close>

theorem search_restores_board:
  assumes "std_sort_spec srt" and "wf_board b" and "empties b < fuel"
  shows "(\<exists>res memo'. minimax fuel srt b memo depth alpha beta maximizingPlayer isScoreAttack
                        original_depth = Inr (res, b, memo'))
       \<and> snd (getOptimizedMoves srt b maximizingPlayer) = b
       \<and> snd (countThreats b piece) = b"
  using returns_boardD[OF minimax_returns_board[OF assms]]
  by (simp add: getOptimizedMoves_board countThreats_eq)

theorem search_restores_board_witness:
  "std_sort_spec stable_sort \<and> wf_board search_board \<and> empties search_board < 7
   \<and> (\<exists>res memo'. minimax 7 stable_sort search_board [] 4 INT_MIN INT_MAX True False 4
                     = Inr (res, search_board, memo'))
   \<and> snd (getOptimizedMoves stable_sort search_board True) = search_board
   \<and> snd (countThreats search_board (CHR ''O'')) = search_board"
proof -
  have wf: "wf_board search_board"
    by (simp add: wf_board_def search_board_def ROWS_def COLS_def)
  have e: "empties search_board < 7"
    by (simp add: empties_def search_board_def)
  from search_restores_board[OF stable_sort_spec wf e] stable_sort_spec wf e
  show ?thesis by blast
qed

text \<open>Claim C8. For a 6 by 7 board and a base depth, \<^verbatim>\<open>getAdaptiveDepth\<close> returns the
  base depth plus 2 when the two sides together have at least two immediate one-move wins,
  plus 1 when they have exactly one; otherwise the larger of 3 and the base depth minus 1
  when fewer than 8 cells are occupied, the base depth plus 1 when more than 30 are, and
  the base depth itself in between. With base depth 4: 5 occupied cells and no threat give
  3, 32 occupied cells and no threat give 5, exactly one threat gives 5, two or more give 6.\<close>

theorem getAdaptiveDepth_steps:
  assumes "wf_board b"
  shows "fst (getAdaptiveDepth b base) =
           (let threats = immediate_wins b (CHR ''O'') + immediate_wins b (CHR ''X'');
                occ = occupied b
            in if 2 \<le> threats then base + 2
               else if threats = 1 then base + 1
               else if occ < 8 then max 3 (base - 1)
               else if 30 < occ then base + 1
               else base)
       \<and> (immediate_wins b (CHR ''O'') + immediate_wins b (CHR ''X'') = 0 \<and> occupied b = 5
            \<longrightarrow> fst (getAdaptiveDepth b 4) = 3)
       \<and> (immediate_wins b (CHR ''O'') + immediate_wins b (CHR ''X'') = 0 \<and> occupied b = 32
            \<longrightarrow> fst (getAdaptiveDepth b 4) = 5)
       \<and> (immediate_wins b (CHR ''O'') + immediate_wins b (CHR ''X'') = 1
            \<longrightarrow> fst (getAdaptiveDepth b 4) = 5)
       \<and> (2 \<le> immediate_wins b (CHR ''O'') + immediate_wins b (CHR ''X'')
            \<longrightarrow> fst (getAdaptiveDepth b 4) = 6)"
  by (simp add: getAdaptiveDepth_eq adaptive_depth_spec_def Let_def)

lemma opening_board_counts:
  "immediate_wins opening_board (CHR ''O'') + immediate_wins opening_board (CHR ''X'') = 0"
  "occupied opening_board = 5"
  by (simp_all add: opening_board_def moves_eval board_eval occupied_def del: upt_Suc)

lemma endgame_board_counts:
  "immediate_wins endgame_board (CHR ''O'') + immediate_wins endgame_board (CHR ''X'') = 0"
  "occupied endgame_board = 32"
  by (simp_all add: endgame_board_def moves_eval board_eval occupied_def del: upt_Suc)

lemma threat_board_counts:
  "immediate_wins threat_board (CHR ''O'') + immediate_wins threat_board (CHR ''X'') = 1"
  by (simp add: threat_board_def moves_eval board_eval del: upt_Suc)

lemma double_threat_board_counts:
  "immediate_wins double_threat_board (CHR ''O'') + immediate_wins double_threat_board (CHR ''X'') = 2"
  by (simp add: double_threat_board_def moves_eval board_eval del: upt_Suc)

theorem getAdaptiveDepth_steps_witness:
  "wf_board opening_board \<and> wf_board endgame_board \<and> wf_board threat_board
   \<and> wf_board double_threat_board
   \<and> occupied opening_board = 5 \<and> fst (getAdaptiveDepth opening_board 4) = 3
   \<and> occupied endgame_board = 32 \<and> fst (getAdaptiveDepth endgame_board 4) = 5
   \<and> fst (getAdaptiveDepth threat_board 4) = 5
   \<and> fst (getAdaptiveDepth double_threat_board 4) = 6"
proof -
  have wf: "wf_board opening_board" "wf_board endgame_board" "wf_board threat_board"
    "wf_board double_threat_board"
    by (simp_all add: wf_board_def opening_board_def endgame_board_def threat_board_def
          double_threat_board_def ROWS_def COLS_def)
  from getAdaptiveDepth_steps[OF wf(1), of 4] getAdaptiveDepth_steps[OF wf(2), of 4]
    getAdaptiveDepth_steps[OF wf(3), of 4] getAdaptiveDepth_steps[OF wf(4), of 4]
    opening_board_counts endgame_board_counts threat_board_counts double_threat_board_counts wf
  show ?thesis by simp
qed

text \<open>Claim C4, as the code has it. For a 6 by 7 board and a piece, \<^verbatim>\<open>evaluateBoard\<close>
  is the sum of \<^verbatim>\<open>evaluateWindow\<close> over every horizontal, vertical and diagonal 4-cell
  window, plus 200 for each own piece in the centre column (index 3), plus 100 for each
  row in which the piece stands in column 2 or in column 4: a row with own pieces in
  both of these columns counts once. The claim as stated, 100 for each own piece in the two
  columns, fails on the board reached by X in column 3, O in column 2, X in column 3 and
  O in column 4.\<close>

theorem evaluateBoard_sum:
  assumes "wf_board b"
  shows "evaluateBoard b piece =
     sum_list (map (window_score b piece) all_windows)
     + 200 * int (pieces_in_column b piece 3)
     + 100 * int (rows_with_flank b piece)"
  by (rule evaluateBoard_closed_form)

lemma flank_board_counts:
  "pieces_in_column flank_board (CHR ''O'') 2 = 1" "pieces_in_column flank_board (CHR ''O'') 4 = 1"
  "pieces_in_column flank_board (CHR ''O'') 3 = 0" "rows_with_flank flank_board (CHR ''O'') = 1"
  by (simp_all add: pieces_in_column_def rows_with_flank_def flank_board_def ROWS_def up6 del: upt_Suc)

theorem evaluateBoard_sum_witness:
  "wf_board flank_board
   \<and> evaluateBoard flank_board (CHR ''O'')
       = sum_list (map (window_score flank_board (CHR ''O'')) all_windows) + 100"
proof -
  have wf: "wf_board flank_board"
    by (simp add: wf_board_def flank_board_def ROWS_def COLS_def)
  from evaluateBoard_sum[OF wf, of "CHR ''O''"] wf show ?thesis
    by (simp add: flank_board_counts)
qed

theorem evaluateBoard_per_piece_counterexample:
  "wf_board flank_board
   \<and> evaluateBoard flank_board (CHR ''O'') = 50
   \<and> claimed_evaluateBoard flank_board (CHR ''O'') = 150"
proof -
  have wf: "wf_board flank_board"
    by (simp add: wf_board_def flank_board_def ROWS_def COLS_def)
  have ev: "evaluateBoard flank_board (CHR ''O'') = 50"
    by (simp add: flank_board_def board_eval)
  have "claimed_evaluateBoard flank_board (CHR ''O'') = evaluateBoard flank_board (CHR ''O'') + 100"
    by (simp add: claimed_evaluateBoard_def evaluateBoard_closed_form flank_board_counts)
  with wf ev show ?thesis by simp
qed


text \<open>Claim C6. For every 6 by 7 board and side to move, \<^verbatim>\<open>getOptimizedMoves\<close>, with
  the insertion sort that \<^verbatim>\<open>std::sort\<close> runs on a vector of at most seven pairs, returns
  exactly the columns that are not full, each once, in an order of descending provisional
  score (1,000,000 for an immediate win, else \<^verbatim>\<open>evaluateBoard\<close> of the board with the
  piece dropped, plus 30 - |column - 3| * 10, plus 40 when the cell below the drop holds
  the same side), and columns of equal score appear in ascending column order. The last
  conjunct says both at once: of two columns in the result, the earlier one has the
  greater score, or the same score and the smaller index.\<close>

theorem getOptimizedMoves_stable_order:
  assumes "wf_board b"
  shows "set (fst (getOptimizedMoves stable_sort b maximizingPlayer)) = {c. c < COLS \<and> nonfull b c}
       \<and> distinct (fst (getOptimizedMoves stable_sort b maximizingPlayer))
       \<and> sorted_wrt (\<lambda>c c'. move_score b (side_piece maximizingPlayer) c
                              \<ge> move_score b (side_piece maximizingPlayer) c')
            (fst (getOptimizedMoves stable_sort b maximizingPlayer))
       \<and> sorted_wrt (\<lambda>c c'. move_score b (side_piece maximizingPlayer) c
                                = move_score b (side_piece maximizingPlayer) c' \<longrightarrow> c < c')
            (fst (getOptimizedMoves stable_sort b maximizingPlayer))
       \<and> sorted_wrt (listed_before (move_score b (side_piece maximizingPlayer)))
            (fst (getOptimizedMoves stable_sort b maximizingPlayer))"
proof -
  let ?cs = "fst (getOptimizedMoves stable_sort b maximizingPlayer)"
  let ?score = "move_score b (side_piece maximizingPlayer)"
  have lb: "sorted_wrt (listed_before ?score) ?cs"
    by (rule getOptimizedMoves_listed_before)
  have st: "set ?cs = {c. c < COLS \<and> nonfull b c}"
    by (rule getOptimizedMoves_set) (rule stable_sort_spec)
  have ds: "distinct ?cs"
    unfolding getOptimizedMoves_stable by simp
  have desc: "sorted_wrt (\<lambda>c c'. ?score c \<ge> ?score c') ?cs"
    by (rule sorted_wrt_mono_rel[OF _ lb]) (auto simp: listed_before_def)
  have ties: "sorted_wrt (\<lambda>c c'. ?score c = ?score c' \<longrightarrow> c < c') ?cs"
    by (rule sorted_wrt_mono_rel[OF _ lb]) (auto simp: listed_before_def)
  from st ds desc ties lb show ?thesis by blast
qed

lemma initBoard_moves:
  "moves_with_score initBoard True =
     ([(0, 0), (1, 10), (2, 120), (3, 230), (4, 120), (5, 10), (6, 0)], initBoard)"
  by (simp add: initBoard_rows moves_eval board_eval del: upt_Suc)

lemma initBoard_order:
  "fst (getOptimizedMoves stable_sort initBoard True) = [3, 2, 4, 1, 5, 0, 6]"
  by (simp add: getOptimizedMoves_def initBoard_moves stable_sort_def)

lemma endgame_board_moves:
  "moves_with_score endgame_board False = ([(1, - 300), (2, - 130), (4, - 320), (5, - 290)], endgame_board)"
  by (simp add: endgame_board_def moves_eval board_eval del: upt_Suc)

lemma endgame_board_order:
  "fst (getOptimizedMoves stable_sort endgame_board False) = [2, 5, 1, 4]"
  by (simp add: getOptimizedMoves_def endgame_board_moves stable_sort_def)

text \<open>On the empty board with the computer to move the columns 2 and 4 tie at 120, the
  columns 1 and 5 at 10 and the columns 0 and 6 at 0, and each pair comes out in column
  order. On \<open>endgame_board\<close> the columns 0, 3 and 6 are full and are left out.\<close>

theorem getOptimizedMoves_stable_order_witness:
  "wf_board initBoard
   \<and> fst (getOptimizedMoves stable_sort initBoard True) = [3, 2, 4, 1, 5, 0, 6]
   \<and> map (move_score initBoard (CHR ''O'')) [3, 2, 4, 1, 5, 0, 6] = [230, 120, 120, 10, 10, 0, 0]
   \<and> set [3, 2, 4, 1, 5, 0, 6] = {c. c < COLS \<and> nonfull initBoard c}
   \<and> sorted_wrt (listed_before (move_score initBoard (CHR ''O''))) [3, 2, 4, 1, 5, 0, 6]
   \<and> wf_board endgame_board
   \<and> fst (getOptimizedMoves stable_sort endgame_board False) = [2, 5, 1, 4]
   \<and> map (move_score endgame_board (CHR ''X'')) [2, 5, 1, 4] = [- 130, - 290, - 300, - 320]
   \<and> set [2, 5, 1, 4] = {c. c < COLS \<and> nonfull endgame_board c}
   \<and> sorted_wrt (listed_before (move_score endgame_board (CHR ''X''))) [2, 5, 1, 4]"
proof -
  have wf: "wf_board initBoard" "wf_board endgame_board"
    by (simp_all add: wf_board_def initBoard_rows endgame_board_def ROWS_def COLS_def)
  have nf: "filter (nonfull initBoard) [0..<COLS] = [0, 1, 2, 3, 4, 5, 6]"
    "filter (nonfull endgame_board) [0..<COLS] = [1, 2, 4, 5]"
    by (simp_all add: initBoard_rows endgame_board_def nonfull_def getNextOpenRow_unfold COLS_def up7
        del: upt_Suc)
  have "map (\<lambda>c. (c, move_score initBoard (CHR ''O'') c)) (filter (nonfull initBoard) [0..<COLS])
      = [(0, 0), (1, 10), (2, 120), (3, 230), (4, 120), (5, 10), (6, 0)]"
    using initBoard_moves by (simp add: moves_with_score_eq side_piece_def)
  then have sc1: "map (move_score initBoard (CHR ''O'')) [3, 2, 4, 1, 5, 0, 6]
      = [230, 120, 120, 10, 10, 0, 0]"
    unfolding nf by simp
  have "map (\<lambda>c. (c, move_score endgame_board (CHR ''X'') c)) (filter (nonfull endgame_board) [0..<COLS])
      = [(1, - 300), (2, - 130), (4, - 320), (5, - 290)]"
    using endgame_board_moves by (simp add: moves_with_score_eq side_piece_def)
  then have sc2: "map (move_score endgame_board (CHR ''X'')) [2, 5, 1, 4]
      = [- 130, - 290, - 300, - 320]"
    unfolding nf by simp
  from getOptimizedMoves_stable_order[OF wf(1), of True]
    getOptimizedMoves_stable_order[OF wf(2), of False]
    wf sc1 sc2
  show ?thesis
    unfolding initBoard_order endgame_board_order by (simp add: side_piece_def)
qed

text \<open>Claim C2. In classic mode, on a fully occupied board with no completed line, the
  specification asks for score 0. The program, called on the full board \<open>drawn_board\<close>
  (no line for either side, no empty cell) with original depth 4, an empty cache and any
  remaining depth, window and side, does not reach its no-legal-moves branch: the clamp
  sets the depth to the number of empty cells, which is 0, and the depth-exhaustion branch
  returns \<^verbatim>\<open>evaluateBoard\<close>, here 900.\<close>

theorem minimax_full_board_not_zero:
  "\<not> checkWin drawn_board (CHR ''O'') \<and> \<not> checkWin drawn_board (CHR ''X'')
   \<and> count_cells (\<lambda>c. c = CHR '' '') drawn_board = 0
   \<and> minimax (Suc n) srt drawn_board [] depth alpha beta maximizingPlayer False 4
       = Inr ((- 1, 900), drawn_board, [])"
proof -
  have w: "\<not> checkWin drawn_board (CHR ''O'')" "\<not> checkWin drawn_board (CHR ''X'')"
    by (simp_all add: drawn_board_def board_eval)
  have e: "count_cells (\<lambda>c. c = CHR '' '') drawn_board = 0"
    by (simp add: drawn_board_def count_cells_rows)
  have v: "evaluateBoard drawn_board (CHR ''O'') = 900"
    by (simp add: drawn_board_def board_eval)
  show ?thesis
    by (simp add: w e v clamp_depth_def)
qed

subsection \<open>A cache at its ceiling\<close>

lemma length_full_memo: "length full_memo = MAX_MEMORY_SIZE"
  by (simp add: full_memo_def)

lemma keys_full_memo: "k \<in> fst ` set full_memo \<Longrightarrow> hd k = CHR ''a''"
  by (auto simp: full_memo_def)

lemma wf_full_memo: "wf_memo full_memo"
proof -
  have "inj_on (\<lambda>n. replicate (Suc n) (CHR ''a'')) A" for A :: "nat set"
    by (rule inj_onI) (metis length_replicate nat.inject)
  then show ?thesis
    by (simp add: wf_memo_def full_memo_def distinct_map comp_def)
qed

lemma map_of_full_memo: "hd k \<noteq> CHR ''a'' \<Longrightarrow> map_of full_memo k = None"
  using keys_full_memo[of k] by (auto simp: map_of_eq_None_iff)

lemma update_absent: "k \<notin> fst ` set al \<Longrightarrow> AList.update k v al = al @ [(k, v)]"
  by (induction al) auto

lemma win_board_keys:
  "memo_key win_board 3 True = '' OO X OXXXOOXXOOXXXOXOXOOXOOOXOXOOXXXOOXXX3T''"
  "memo_key (set_cell win_board 0 3 (CHR ''O'')) 2 False = '' OOOX OXXXOOXXOOXXXOXOXOOXOOOXOXOOXXXOOXXX2F''"
  by (simp_all add: win_board_def search_eval set_cell_def)

lemma update_new_key:
  assumes "wf_memo memo" and "map_of memo k = None"
  shows "wf_memo (AList.update k v memo) \<and> length (AList.update k v memo) = length memo + 1"
proof -
  from assms(2) have "k \<notin> fst ` set memo"
    by (simp add: map_of_eq_None_iff)
  then have "AList.update k v memo = memo @ [(k, v)]"
    by (rule update_absent)
  with assms(1) \<open>k \<notin> fst ` set memo\<close> show ?thesis
    by (simp add: wf_memo_def)
qed

text \<open>Claim C5. The specification asks that an entry is inserted only while the cache holds
  fewer than \<^verbatim>\<open>MAX_MEMORY_SIZE\<close> entries. The insertion before the final return is
  guarded so; the insertion at the forced-win cutoff is not. Take any cache that holds
  exactly \<^verbatim>\<open>MAX_MEMORY_SIZE\<close> entries and none for the two positions of this search,
  and call the program on \<open>win_board\<close> (three empty cells, O to move, column 3
  completes a line) with depth 3 of 3 in classic mode, as the endgame search does two
  plies below a root with five empty cells: it finds the win in the first column it tries
  and inserts the entry, so that the cache holds one entry more than the ceiling.\<close>

theorem forced_win_cutoff_exceeds_ceiling:
  assumes "wf_memo memo" and "length memo = MAX_MEMORY_SIZE"
    and "map_of memo (memo_key win_board 3 True) = None"
    and "map_of memo (memo_key (set_cell win_board 0 3 (CHR ''O'')) 2 False) = None"
  shows "\<exists>memo'. minimax (Suc (Suc 0)) stable_sort win_board memo 3 INT_MIN INT_MAX True False 3
                  = Inr ((3, 1000002), win_board, memo')
               \<and> wf_memo memo' \<and> length memo' = MAX_MEMORY_SIZE + 1"
proof -
  let ?k = "'' OO X OXXXOOXXOOXXXOXOXOOXOOOXOXOOXXXOOXXX3T''"
  from assms(3,4) have none:
    "map_of memo ?k = None"
    "map_of memo '' OOOX OXXXOOXXOOXXXOXOXOOXOOOXOXOOXXXOOXXX2F'' = None"
    by (simp_all only: win_board_keys)
  have m: "minimax (Suc (Suc 0)) stable_sort win_board memo 3 INT_MIN INT_MAX True False 3
       = Inr ((3, 1000002), win_board, AList.update ?k (3, 1000002) memo)"
    by (simp add: win_board_def search_eval moves_eval board_eval clamp_depth_def count_cells_rows
          none del: upt_Suc)
  from update_new_key[OF assms(1) none(1), of "(3, 1000002)"] assms(2) m
  show ?thesis by simp
qed

theorem forced_win_cutoff_exceeds_ceiling_witness:
  "wf_memo full_memo \<and> length full_memo = MAX_MEMORY_SIZE
   \<and> map_of full_memo (memo_key win_board 3 True) = None
   \<and> map_of full_memo (memo_key (set_cell win_board 0 3 (CHR ''O'')) 2 False) = None
   \<and> (\<exists>memo'. minimax (Suc (Suc 0)) stable_sort win_board full_memo 3 INT_MIN INT_MAX True False 3
                  = Inr ((3, 1000002), win_board, memo')
               \<and> wf_memo memo' \<and> length memo' = MAX_MEMORY_SIZE + 1)"
proof -
  have k: "map_of full_memo (memo_key win_board 3 True) = None"
    "map_of full_memo (memo_key (set_cell win_board 0 3 (CHR ''O'')) 2 False) = None"
    by (simp_all add: win_board_keys map_of_full_memo)
  from forced_win_cutoff_exceeds_ceiling[OF wf_full_memo length_full_memo k]
    wf_full_memo length_full_memo k
  show ?thesis by blast
qed

subsection \<open>The cache against the plain search\<close>

lemma search_board_depth: "fst (getAdaptiveDepth search_board 2) = 4"
proof -
  have "immediate_wins search_board (CHR ''X'') = 3"
    by (simp add: search_board_def moves_eval board_eval del: upt_Suc)
  then show ?thesis
    by (simp add: getAdaptiveDepth_eq adaptive_depth_spec_def)
qed

lemma search_with_cache:
  "map_sum id fst
     (minimax (Suc (Suc (Suc (Suc (Suc 0))))) stable_sort search_board [] 4 INT_MIN INT_MAX True True 4)
   = Inr (2, 1050)"
  by (simp add: search_board_def search_eval moves_eval board_eval del: upt_Suc)

lemma search_without_cache:
  "map_sum id fst
     (minimax_nocache (Suc (Suc (Suc (Suc (Suc 0))))) stable_sort search_board 4 INT_MIN INT_MAX True True 4)
   = Inr (3, 900)"
  by (simp add: search_board_def search_eval moves_eval board_eval del: upt_Suc)

text \<open>Claim C1. The specification takes the cache for pure memoisation: the search with the
  cache and the search without it return the same pair. The program's cache stores, under
  a key made of the board, the depth and the side only, values that were computed under
  the alpha-beta window of the moment, and returns them later under other windows. On
  \<open>search_board\<close> (O to move, score-attack mode, full window, empty cache) with depth
  4 of 4, which is the depth that \<^verbatim>\<open>getAdaptiveDepth\<close> gives this board at base depth
  2, the program returns column 2 with score 1050; the same search with the three cache
  statements removed returns column 3 with score 900. The sorting routine is the stable
  insertion sort.\<close>

theorem cache_changes_result:
  "fst (getAdaptiveDepth search_board 2) = 4
   \<and> map_sum id fst
     (minimax (Suc (Suc (Suc (Suc (Suc 0))))) stable_sort search_board [] 4 INT_MIN INT_MAX True True 4)
   = Inr (2, 1050)
   \<and> map_sum id fst
     (minimax_nocache (Suc (Suc (Suc (Suc (Suc 0))))) stable_sort search_board 4 INT_MIN INT_MAX True True 4)
   = Inr (3, 900)"
  using search_board_depth search_with_cache search_without_cache by blast

end
